theory Spec2Isabelle
  imports Main
begin

section \<open>The rerechan compiler: tokens, syntax tree and errors\<close>

text \<open>
  The development follows \<^verbatim>\<open>src/compiler/rerec.py\<close>: the class \<^verbatim>\<open>Lexer\<close>, the
  class \<^verbatim>\<open>Parser\<close>, the class \<^verbatim>\<open>CodeGenerator\<close> and the tokenising loop of
  \<^verbatim>\<open>RereCompiler.compile_to_c\<close>.

  Python strings are modelled as HOL strings. A HOL character is a code point below 256,
  so source texts range over Latin-1; the three character classes the lexer asks for
  (\<^verbatim>\<open>str.isspace\<close>, \<^verbatim>\<open>str.isalpha\<close>, \<^verbatim>\<open>str.isalnum\<close>) are Python's, restricted to
  that range.

  Every object with mutable fields is a record that the operation takes and returns
  updated. An exception is a value of type \<open>error\<close>, returned as \<open>Inl\<close>. A \<^verbatim>\<open>while\<close>
  loop of the parser is a recursive function into \<open>option\<close>, where \<open>None\<close> stands for a loop
  that does not return.
\<close>

record Token =
  ttype :: string
  tvalue :: string

text \<open>\<^verbatim>\<open>Token.__repr__\<close>, used in the message of a syntax error.\<close>

definition Token_repr :: "Token \<Rightarrow> string" where
  "Token_repr t = ''Token('' @ ttype t @ '', '' @ [CHR 0x27] @ tvalue t @ [CHR 0x27] @ '')''"

text \<open>
  The node classes. The parser builds argument and return expressions with
  \<^verbatim>\<open>parse_expression\<close> only, which constructs \<^verbatim>\<open>StringLiteral\<close> and nothing else, and
  statements with \<^verbatim>\<open>parse_call\<close> and \<^verbatim>\<open>parse_return\<close>; the tree is typed accordingly.
\<close>

datatype Expression = StringLiteral (sl_value: string)

datatype Statement =
    Call (call_func: string) (call_args: "Expression list")
  | Return (ret_value: Expression)

record Function =
  f_name :: string
  f_params :: "(string \<times> string) list"
  f_returns :: string
  f_body :: "Statement list"

record Module =
  m_name :: string
  m_imports :: "string list"
  m_functions :: "Function list"

datatype error =
    SyntaxError string
  | NotImplementedError string
  | IndexError string

section \<open>Strings\<close>

abbreviation dquote :: char where
  "dquote \<equiv> CHR 0x22"

abbreviation newline :: char where
  "newline \<equiv> CHR 0x0A"

text \<open>\<^verbatim>\<open>sep.join(xs)\<close>.\<close>

fun join :: "string \<Rightarrow> string list \<Rightarrow> string" where
  "join sep [] = []"
| "join sep [x] = x"
| "join sep (x # y # ys) = x @ sep @ join sep (y # ys)"

text \<open>
  \<^verbatim>\<open>c.isspace()\<close> for a code point below 256: tab to carriage return, the four
  separators 28 to 31, the space, NEL (133) and the no-break space (160).
\<close>

definition isspace :: "char \<Rightarrow> bool" where
  "isspace c = (let n = of_char c :: nat in
     (9 \<le> n \<and> n \<le> 13) \<or> (28 \<le> n \<and> n \<le> 32) \<or> n = 133 \<or> n = 160)"

text \<open>
  \<^verbatim>\<open>c.isalpha()\<close> for a code point below 256: the ASCII letters, the ordinal
  indicators 170 and 186, the micro sign 181 and the Latin-1 letters from 192 on, without
  the multiplication sign 215 and the division sign 247.
\<close>

definition isalpha :: "char \<Rightarrow> bool" where
  "isalpha c = (let n = of_char c :: nat in
     (65 \<le> n \<and> n \<le> 90) \<or> (97 \<le> n \<and> n \<le> 122) \<or> n = 170 \<or> n = 181 \<or> n = 186 \<or>
     (192 \<le> n \<and> n \<le> 214) \<or> (216 \<le> n \<and> n \<le> 246) \<or> 248 \<le> n)"

text \<open>
  \<^verbatim>\<open>c.isalnum()\<close> for a code point below 256: a letter, an ASCII digit, a superscript
  digit (178, 179, 185) or a vulgar fraction (188 to 190).
\<close>

definition isalnum :: "char \<Rightarrow> bool" where
  "isalnum c = (let n = of_char c :: nat in
     isalpha c \<or> (48 \<le> n \<and> n \<le> 57) \<or> n = 178 \<or> n = 179 \<or> n = 185 \<or>
     (188 \<le> n \<and> n \<le> 190))"

text \<open>
  \<^verbatim>\<open>s.upper()\<close>. The lexer calls it on the four keywords only, so the model covers
  the ASCII lower-case letters and leaves every other character as it is.
\<close>

definition upper_char :: "char \<Rightarrow> char" where
  "upper_char c = (let n = of_char c :: nat in
     if 97 \<le> n \<and> n \<le> 122 then char_of (n - 32) else c)"

definition upper :: "string \<Rightarrow> string" where
  "upper s = map upper_char s"

section \<open>Lexer\<close>

record Lexer =
  source :: string
  pos :: nat
  current_char :: "char option"

definition KEYWORDS :: "string set" where
  "KEYWORDS = {''module'', ''import'', ''func'', ''return''}"

text \<open>\<^verbatim>\<open>Lexer.__init__\<close>.\<close>

definition Lexer_init :: "string \<Rightarrow> Lexer" where
  "Lexer_init src =
     \<lparr>source = src, pos = 0, current_char = (if src \<noteq> [] then Some (src ! 0) else None)\<rparr>"

text \<open>\<^verbatim>\<open>Lexer.advance\<close>.\<close>

definition Lexer_advance :: "Lexer \<Rightarrow> Lexer" where
  "Lexer_advance l =
     (let p = pos l + 1
      in l\<lparr>pos := p,
           current_char := (if p < length (source l) then Some (source l ! p) else None)\<rparr>)"

text \<open>
  Every loop of the lexer runs while \<^verbatim>\<open>current_char\<close> is not \<^verbatim>\<open>None\<close> and advances
  in each round; the number of characters left, counted from a state with a current
  character, decreases.
\<close>

definition chars_left :: "Lexer \<Rightarrow> nat" where
  "chars_left l = (case current_char l of None \<Rightarrow> 0 | Some c \<Rightarrow> Suc (length (source l) - pos l))"

lemma chars_left_advance:
  "current_char l = Some c \<Longrightarrow> chars_left (Lexer_advance l) < chars_left l"
  by (auto simp: chars_left_def Lexer_advance_def Let_def)

text \<open>\<^verbatim>\<open>Lexer.skip_whitespace\<close>.\<close>

function skip_whitespace :: "Lexer \<Rightarrow> Lexer" where
  "skip_whitespace l =
     (case current_char l of
        None \<Rightarrow> l
      | Some c \<Rightarrow> if isspace c then skip_whitespace (Lexer_advance l) else l)"
  by pat_completeness auto
termination
  by (relation "measure chars_left") (auto simp: chars_left_advance)

declare skip_whitespace.simps [simp del]

text \<open>\<^verbatim>\<open>Lexer.get_identifier\<close>: the loop, started with the empty result.\<close>

function get_identifier_loop :: "string \<Rightarrow> Lexer \<Rightarrow> string \<times> Lexer" where
  "get_identifier_loop result l =
     (case current_char l of
        None \<Rightarrow> (result, l)
      | Some c \<Rightarrow>
          if isalnum c \<or> c = CHR ''_''
          then get_identifier_loop (result @ [c]) (Lexer_advance l)
          else (result, l))"
  by pat_completeness auto
termination
  by (relation "measure (\<lambda>(result, l). chars_left l)") (auto simp: chars_left_advance)

declare get_identifier_loop.simps [simp del]

definition get_identifier :: "Lexer \<Rightarrow> string \<times> Lexer" where
  "get_identifier l = get_identifier_loop [] l"

text \<open>
  \<^verbatim>\<open>Lexer.get_string\<close>: skip the opening quote, collect up to the next quote or the
  end of the input, advance once more, wrap the result in quotes.
\<close>

function get_string_loop :: "string \<Rightarrow> Lexer \<Rightarrow> string \<times> Lexer" where
  "get_string_loop result l =
     (case current_char l of
        None \<Rightarrow> (result, l)
      | Some c \<Rightarrow>
          if c \<noteq> dquote
          then get_string_loop (result @ [c]) (Lexer_advance l)
          else (result, l))"
  by pat_completeness auto
termination
  by (relation "measure (\<lambda>(result, l). chars_left l)") (auto simp: chars_left_advance)

declare get_string_loop.simps [simp del]

definition get_string :: "Lexer \<Rightarrow> string \<times> Lexer" where
  "get_string l =
     (let (result, l') = get_string_loop [] (Lexer_advance l)
      in ([dquote] @ result @ [dquote], Lexer_advance l'))"

text \<open>The inner loop of the comment rule: advance up to the end of the line.\<close>

function skip_comment :: "Lexer \<Rightarrow> Lexer" where
  "skip_comment l =
     (case current_char l of
        None \<Rightarrow> l
      | Some c \<Rightarrow> if c \<noteq> newline then skip_comment (Lexer_advance l) else l)"
  by pat_completeness auto
termination
  by (relation "measure chars_left") (auto simp: chars_left_advance)

declare skip_comment.simps [simp del]

lemma skip_whitespace_le: "chars_left (skip_whitespace l) \<le> chars_left l"
proof (induction l rule: skip_whitespace.induct)
  case (1 l)
  show ?case
  proof (cases "current_char l")
    case None
    then show ?thesis by (simp add: skip_whitespace.simps [of l])
  next
    case (Some c)
    show ?thesis
    proof (cases "isspace c")
      case True
      with Some "1" [of c] chars_left_advance [of l c] show ?thesis
        by (simp add: skip_whitespace.simps [of l])
    next
      case False
      with Some show ?thesis by (simp add: skip_whitespace.simps [of l])
    qed
  qed
qed

lemma skip_comment_le: "chars_left (skip_comment l) \<le> chars_left l"
proof (induction l rule: skip_comment.induct)
  case (1 l)
  show ?case
  proof (cases "current_char l")
    case None
    then show ?thesis by (simp add: skip_comment.simps [of l])
  next
    case (Some c)
    show ?thesis
    proof (cases "c \<noteq> newline")
      case True
      with Some "1" [of c] chars_left_advance [of l c] show ?thesis
        by (simp add: skip_comment.simps [of l])
    next
      case False
      with Some show ?thesis by (simp add: skip_comment.simps [of l])
    qed
  qed
qed

lemma skip_whitespace_less:
  "current_char l = Some c \<Longrightarrow> isspace c \<Longrightarrow> chars_left (skip_whitespace l) < chars_left l"
  using skip_whitespace_le [of "Lexer_advance l"] chars_left_advance [of l c]
  by (simp add: skip_whitespace.simps [of l])

lemma skip_comment_less:
  "current_char l = Some c \<Longrightarrow> c \<noteq> newline \<Longrightarrow> chars_left (skip_comment l) < chars_left l"
  using skip_comment_le [of "Lexer_advance l"] chars_left_advance [of l c]
  by (simp add: skip_comment.simps [of l])

text \<open>
  \<^verbatim>\<open>Lexer.get_next_token\<close>. The rules are tried in the order of the source; the
  first two and the last one go round the loop again.
\<close>

definition punctuation :: "char set" where
  "punctuation = {CHR '';'', CHR ''{'', CHR ''}'', CHR ''('', CHR '')'', CHR '','', CHR ''.'', CHR '':''}"

function get_next_token :: "Lexer \<Rightarrow> Token \<times> Lexer" where
  "get_next_token l =
     (case current_char l of
        None \<Rightarrow> (\<lparr>ttype = ''EOF'', tvalue = ''''\<rparr>, l)
      | Some c \<Rightarrow>
          if isspace c then get_next_token (skip_whitespace l)
          else if c = CHR ''/'' \<and> pos l + 1 < length (source l) \<and> source l ! (pos l + 1) = CHR ''/''
          then get_next_token (skip_comment l)
          else if isalpha c \<or> c = CHR ''_''
          then (let (ident, l') = get_identifier l
                in if ident \<in> KEYWORDS
                   then (\<lparr>ttype = upper ident, tvalue = ident\<rparr>, l')
                   else (\<lparr>ttype = ''IDENT'', tvalue = ident\<rparr>, l'))
          else if c = dquote
          then (let (s, l') = get_string l in (\<lparr>ttype = ''STRING'', tvalue = s\<rparr>, l'))
          else if c \<in> punctuation
          then (\<lparr>ttype = [c], tvalue = [c]\<rparr>, Lexer_advance l)
          else get_next_token (Lexer_advance l))"
  by pat_completeness auto
termination
  by (relation "measure chars_left")
    (auto simp: chars_left_advance skip_whitespace_less skip_comment_less)

declare get_next_token.simps [simp del]

text \<open>
  A lexer state is consistent when \<^verbatim>\<open>current_char\<close> is the character at \<^verbatim>\<open>pos\<close>, or
  \<^verbatim>\<open>None\<close> past the end. The constructor and \<^verbatim>\<open>advance\<close> establish it.
\<close>

definition consistent :: "Lexer \<Rightarrow> bool" where
  "consistent l \<longleftrightarrow>
     current_char l = (if pos l < length (source l) then Some (source l ! pos l) else None)"

lemma consistent_advance: "consistent (Lexer_advance l)"
  by (simp add: consistent_def Lexer_advance_def Let_def)

lemma consistent_init: "consistent (Lexer_init s)"
  by (simp add: consistent_def Lexer_init_def)

lemma chars_left_advance_le:
  "consistent l \<Longrightarrow> chars_left (Lexer_advance l) \<le> chars_left l"
  by (auto simp: consistent_def chars_left_def Lexer_advance_def Let_def split: if_splits)

lemma get_identifier_loop_props:
  "get_identifier_loop r l = (r', l') \<Longrightarrow>
     chars_left l' \<le> chars_left l \<and> (consistent l \<longrightarrow> consistent l')"
proof (induction r l arbitrary: r' l' rule: get_identifier_loop.induct)
  case (1 result l)
  show ?case
  proof (cases "current_char l")
    case None
    with "1.prems" show ?thesis by (simp add: get_identifier_loop.simps [of result l])
  next
    case (Some c)
    show ?thesis
    proof (cases "isalnum c \<or> c = CHR ''_''")
      case True
      with Some "1.prems" have "get_identifier_loop (result @ [c]) (Lexer_advance l) = (r', l')"
        by (simp add: get_identifier_loop.simps [of result l])
      from "1.IH" [OF Some True this] chars_left_advance [OF Some] consistent_advance
      show ?thesis by auto
    next
      case False
      with Some "1.prems" show ?thesis by (simp add: get_identifier_loop.simps [of result l])
    qed
  qed
qed

lemma get_string_loop_props:
  "get_string_loop r l = (r', l') \<Longrightarrow>
     chars_left l' \<le> chars_left l \<and> (consistent l \<longrightarrow> consistent l')"
proof (induction r l arbitrary: r' l' rule: get_string_loop.induct)
  case (1 result l)
  show ?case
  proof (cases "current_char l")
    case None
    with "1.prems" show ?thesis by (simp add: get_string_loop.simps [of result l])
  next
    case (Some c)
    show ?thesis
    proof (cases "c \<noteq> dquote")
      case True
      with Some "1.prems" have "get_string_loop (result @ [c]) (Lexer_advance l) = (r', l')"
        by (simp add: get_string_loop.simps [of result l])
      from "1.IH" [OF Some True this] chars_left_advance [OF Some] consistent_advance
      show ?thesis by auto
    next
      case False
      with Some "1.prems" show ?thesis by (simp add: get_string_loop.simps [of result l])
    qed
  qed
qed

lemma isalpha_isalnum: "isalpha c \<Longrightarrow> isalnum c"
  by (simp add: isalnum_def Let_def)

lemma get_identifier_less:
  assumes "current_char l = Some c" "isalpha c \<or> c = CHR ''_''" "get_identifier l = (r, l')"
  shows "chars_left l' < chars_left l"
proof -
  from assms have "get_identifier_loop [c] (Lexer_advance l) = (r, l')"
    by (auto simp: get_identifier_def get_identifier_loop.simps [of "[]" l] isalpha_isalnum)
  from get_identifier_loop_props [OF this] chars_left_advance [OF assms(1)]
  show ?thesis by simp
qed

lemma get_string_less:
  assumes "current_char l = Some c" "get_string l = (r, l')"
  shows "chars_left l' < chars_left l"
proof -
  obtain r0 l0 where loop: "get_string_loop [] (Lexer_advance l) = (r0, l0)"
    by (cases "get_string_loop [] (Lexer_advance l)")
  with assms(2) have l': "l' = Lexer_advance l0"
    by (simp add: get_string_def)
  from get_string_loop_props [OF loop] consistent_advance
  have "chars_left l0 \<le> chars_left (Lexer_advance l)" "consistent l0" by auto
  with chars_left_advance_le [of l0] chars_left_advance [OF assms(1)] l'
  show ?thesis by simp
qed

lemma get_next_token_eof:
  "current_char l = None \<Longrightarrow> get_next_token l = (\<lparr>ttype = ''EOF'', tvalue = ''''\<rparr>, l)"
  by (simp add: get_next_token.simps [of l])

lemma get_next_token_space:
  "current_char l = Some c \<Longrightarrow> isspace c \<Longrightarrow>
     get_next_token l = get_next_token (skip_whitespace l)"
  by (simp add: get_next_token.simps [of l])

lemma get_next_token_comment:
  "current_char l = Some c \<Longrightarrow> \<not> isspace c \<Longrightarrow>
   c = CHR ''/'' \<and> pos l + 1 < length (source l) \<and> source l ! (pos l + 1) = CHR ''/'' \<Longrightarrow>
     get_next_token l = get_next_token (skip_comment l)"
  by (simp add: get_next_token.simps [of l])

lemma get_next_token_ident:
  "current_char l = Some c \<Longrightarrow> \<not> isspace c \<Longrightarrow>
   \<not> (c = CHR ''/'' \<and> pos l + 1 < length (source l) \<and> source l ! (pos l + 1) = CHR ''/'') \<Longrightarrow>
   isalpha c \<or> c = CHR ''_'' \<Longrightarrow>
     get_next_token l =
       (let (ident, l') = get_identifier l
        in if ident \<in> KEYWORDS
           then (\<lparr>ttype = upper ident, tvalue = ident\<rparr>, l')
           else (\<lparr>ttype = ''IDENT'', tvalue = ident\<rparr>, l'))"
  by (subst get_next_token.simps) auto

lemma get_next_token_string:
  "current_char l = Some c \<Longrightarrow> \<not> isspace c \<Longrightarrow>
   \<not> (c = CHR ''/'' \<and> pos l + 1 < length (source l) \<and> source l ! (pos l + 1) = CHR ''/'') \<Longrightarrow>
   \<not> (isalpha c \<or> c = CHR ''_'') \<Longrightarrow> c = dquote \<Longrightarrow>
     get_next_token l = (let (s, l') = get_string l in (\<lparr>ttype = ''STRING'', tvalue = s\<rparr>, l'))"
  by (subst get_next_token.simps) auto

lemma get_next_token_punct:
  "current_char l = Some c \<Longrightarrow> \<not> isspace c \<Longrightarrow>
   \<not> (c = CHR ''/'' \<and> pos l + 1 < length (source l) \<and> source l ! (pos l + 1) = CHR ''/'') \<Longrightarrow>
   \<not> (isalpha c \<or> c = CHR ''_'') \<Longrightarrow> c \<noteq> dquote \<Longrightarrow> c \<in> punctuation \<Longrightarrow>
     get_next_token l = (\<lparr>ttype = [c], tvalue = [c]\<rparr>, Lexer_advance l)"
  by (subst get_next_token.simps) auto

lemma get_next_token_other:
  "current_char l = Some c \<Longrightarrow> \<not> isspace c \<Longrightarrow>
   \<not> (c = CHR ''/'' \<and> pos l + 1 < length (source l) \<and> source l ! (pos l + 1) = CHR ''/'') \<Longrightarrow>
   \<not> (isalpha c \<or> c = CHR ''_'') \<Longrightarrow> c \<noteq> dquote \<Longrightarrow> c \<notin> punctuation \<Longrightarrow>
     get_next_token l = get_next_token (Lexer_advance l)"
  by (subst get_next_token.simps) auto

lemma get_next_token_less:
  "get_next_token l = (t, l') \<Longrightarrow> ttype t \<noteq> ''EOF'' \<Longrightarrow> chars_left l' < chars_left l"
proof (induction l arbitrary: t l' rule: get_next_token.induct)
  case (1 l)
  show ?case
  proof (cases "current_char l")
    case None
    with "1.prems" show ?thesis by (auto simp: get_next_token_eof)
  next
    case (Some c)
    let ?cm = "c = CHR ''/'' \<and> pos l + 1 < length (source l) \<and> source l ! (pos l + 1) = CHR ''/''"
    consider (ws) "isspace c"
      | (comment) "\<not> isspace c" "?cm"
      | (ident) "\<not> isspace c" "\<not> ?cm" "isalpha c \<or> c = CHR ''_''"
      | (str) "\<not> isspace c" "\<not> ?cm" "\<not> (isalpha c \<or> c = CHR ''_'')" "c = dquote"
      | (punct) "\<not> isspace c" "\<not> ?cm" "\<not> (isalpha c \<or> c = CHR ''_'')" "c \<noteq> dquote"
          "c \<in> punctuation"
      | (other) "\<not> isspace c" "\<not> ?cm" "\<not> (isalpha c \<or> c = CHR ''_'')" "c \<noteq> dquote"
          "c \<notin> punctuation"
      by blast
    then show ?thesis
    proof cases
      case ws
      with "1.prems"(1) have "get_next_token (skip_whitespace l) = (t, l')"
        by (simp add: get_next_token_space [OF Some])
      from "1.IH"(1) [OF Some ws this "1.prems"(2)] skip_whitespace_less [OF Some ws]
      show ?thesis by simp
    next
      case comment
      with "1.prems"(1) have "get_next_token (skip_comment l) = (t, l')"
        by (simp add: get_next_token_comment [OF Some])
      from "1.IH"(2) [OF Some comment(1) comment(2) this "1.prems"(2)]
        skip_comment_less [OF Some] comment(2)
      show ?thesis by simp
    next
      case ident
      obtain i li where gi: "get_identifier l = (i, li)" by (cases "get_identifier l")
      with "1.prems"(1) have "l' = li"
        by (auto simp: get_next_token_ident [OF Some ident] split: if_splits)
      with get_identifier_less [OF Some ident(3) gi] show ?thesis by simp
    next
      case str
      obtain s ls where gs: "get_string l = (s, ls)" by (cases "get_string l")
      with "1.prems"(1) have "l' = ls"
        by (auto simp: get_next_token_string [OF Some str])
      with get_string_less [OF Some gs] show ?thesis by simp
    next
      case punct
      with "1.prems"(1) have "l' = Lexer_advance l"
        by (auto simp: get_next_token_punct [OF Some punct])
      with chars_left_advance [OF Some] show ?thesis by simp
    next
      case other
      with "1.prems"(1) have "get_next_token (Lexer_advance l) = (t, l')"
        by (simp add: get_next_token_other [OF Some other])
      from "1.IH"(3) [OF Some other(1) other(2) other(3) other(4) other(5) this "1.prems"(2)]
        chars_left_advance [OF Some]
      show ?thesis by simp
    qed
  qed
qed

text \<open>
  The tokenising loop of \<^verbatim>\<open>RereCompiler.compile_to_c\<close>: ask for tokens until one of
  type \<^verbatim>\<open>EOF\<close> comes, and keep the others.
\<close>

function tokenize_loop :: "Token list \<Rightarrow> Lexer \<Rightarrow> Token list" where
  "tokenize_loop tokens l =
     (let (token, l') = get_next_token l
      in if ttype token = ''EOF'' then tokens else tokenize_loop (tokens @ [token]) l')"
  by pat_completeness auto
termination
  by (relation "measure (\<lambda>(tokens, l). chars_left l)") (auto dest: get_next_token_less [OF sym])

declare tokenize_loop.simps [simp del]

definition tokenize :: "string \<Rightarrow> Token list" where
  "tokenize src = tokenize_loop [] (Lexer_init src)"

section \<open>Parser\<close>

record Parser =
  tokens :: "Token list"
  tpos :: nat
  current_token :: Token

text \<open>The token the parser reads once the list is exhausted: \<^verbatim>\<open>Token('EOF', '')\<close>.\<close>

definition EOF_token :: Token where
  "EOF_token = \<lparr>ttype = ''EOF'', tvalue = ''''\<rparr>"

text \<open>\<^verbatim>\<open>Parser.__init__\<close>.\<close>

definition Parser_init :: "Token list \<Rightarrow> Parser" where
  "Parser_init toks =
     \<lparr>tokens = toks, tpos = 0, current_token = (if toks \<noteq> [] then toks ! 0 else EOF_token)\<rparr>"

text \<open>\<^verbatim>\<open>Parser.advance\<close>.\<close>

definition Parser_advance :: "Parser \<Rightarrow> Parser" where
  "Parser_advance p =
     (let i = tpos p + 1
      in p\<lparr>tpos := i,
           current_token := (if i < length (tokens p) then tokens p ! i else EOF_token)\<rparr>)"

text \<open>
  \<^verbatim>\<open>Parser.expect\<close>: the expected string is compared with the type and with the value
  of the current token; a match returns the token and advances, a mismatch raises
  \<^verbatim>\<open>SyntaxError\<close>.
\<close>

definition expect :: "string \<Rightarrow> Parser \<Rightarrow> error + Token \<times> Parser" where
  "expect expected_type p =
     (if ttype (current_token p) = expected_type \<or> tvalue (current_token p) = expected_type
      then Inr (current_token p, Parser_advance p)
      else Inl (SyntaxError
             (''Expected '' @ expected_type @ '', got '' @ Token_repr (current_token p))))"

text \<open>\<^verbatim>\<open>Parser.peek\<close>.\<close>

definition peek :: "Parser \<Rightarrow> Token" where
  "peek p = (if tpos p + 1 < length (tokens p) then tokens p ! (tpos p + 1) else EOF_token)"

text \<open>
  The result of a parsing method: \<open>None\<close> when it does not return, \<open>Some (Inl e)\<close> when
  it raises \<open>e\<close>, \<open>Some (Inr (x, p))\<close> when it returns \<open>x\<close> and leaves the parser in
  state \<open>p\<close>. \<open>and_then\<close> runs the next statement of a method body on the value and the
  state of the previous one, and passes an exception or a divergence on.
\<close>

type_synonym 'a result = "(error + 'a \<times> Parser) option"

definition and_then :: "'a result \<Rightarrow> ('a \<Rightarrow> Parser \<Rightarrow> 'b result) \<Rightarrow> 'b result" where
  "and_then m f =
     (case m of
        None \<Rightarrow> None
      | Some (Inl e) \<Rightarrow> Some (Inl e)
      | Some (Inr (x, p)) \<Rightarrow> f x p)"

lemma and_then_mono [partial_function_mono]:
  assumes "mono_option B" and "\<And>x p. mono_option (\<lambda>f. C x p f)"
  shows "mono_option (\<lambda>f. and_then (B f) (\<lambda>x p. C x p f))"
proof -
  have eq: "and_then m g =
      Option.bind m (\<lambda>r. case r of Inl e \<Rightarrow> Some (Inl e) | Inr (x, p) \<Rightarrow> g x p)" for m g
    by (simp add: and_then_def split: option.splits sum.splits)
  show ?thesis
    unfolding eq
  proof (rule bind_mono [OF assms(1)])
    fix y
    show "mono_option (\<lambda>f. case y of Inl e \<Rightarrow> Some (Inl e) | Inr (x, p) \<Rightarrow> C x p f)"
    proof (cases y)
      case (Inl e)
      then show ?thesis by (simp add: option.const_mono)
    next
      case (Inr xp)
      then show ?thesis by (cases xp) (simp add: assms(2))
    qed
  qed
qed

text \<open>\<^verbatim>\<open>Parser.parse_expression\<close>.\<close>

definition parse_expression :: "Parser \<Rightarrow> Expression result" where
  "parse_expression p =
     (if ttype (current_token p) = ''STRING''
      then and_then (Some (expect ''STRING'' p)) (\<lambda>t p. Some (Inr (StringLiteral (tvalue t), p)))
      else Some (Inl (NotImplementedError ''Complex expressions not implemented yet'')))"

text \<open>\<^verbatim>\<open>Parser.parse_return\<close>.\<close>

definition parse_return :: "Parser \<Rightarrow> Statement result" where
  "parse_return p =
     and_then (Some (expect ''return'' p)) (\<lambda>_ p.
     and_then (parse_expression p) (\<lambda>expr p.
     and_then (Some (expect '';'' p)) (\<lambda>_ p.
     Some (Inr (Return expr, p)))))"

text \<open>\<^verbatim>\<open>Parser.parse_call\<close>: the argument loop, then the method.\<close>

partial_function (option) parse_call_args :: "Expression list \<Rightarrow> Parser \<Rightarrow> Expression list result"
where
  "parse_call_args args p =
     (if tvalue (current_token p) \<noteq> '')''
      then and_then (parse_expression p) (\<lambda>arg p.
           and_then (if tvalue (current_token p) = '',''
                     then Some (expect '','' p)
                     else Some (Inr (current_token p, p))) (\<lambda>_ p.
           parse_call_args (args @ [arg]) p))
      else Some (Inr (args, p)))"

declare parse_call_args.simps [code]

definition parse_call :: "Parser \<Rightarrow> Statement result" where
  "parse_call p =
     and_then (Some (expect ''IDENT'' p)) (\<lambda>func p.
     and_then (Some (expect ''('' p)) (\<lambda>_ p.
     and_then (parse_call_args [] p) (\<lambda>args p.
     and_then (Some (expect '')'' p)) (\<lambda>_ p.
     and_then (Some (expect '';'' p)) (\<lambda>_ p.
     Some (Inr (Call (tvalue func) args, p)))))))"

text \<open>\<^verbatim>\<open>Parser.parse_statement\<close>.\<close>

definition parse_statement :: "Parser \<Rightarrow> Statement result" where
  "parse_statement p =
     (if tvalue (current_token p) = ''return'' then parse_return p
      else if ttype (current_token p) = ''IDENT'' \<and> tvalue (peek p) = ''('' then parse_call p
      else Some (Inl (SyntaxError (''Unexpected token: '' @ Token_repr (current_token p)))))"

text \<open>\<^verbatim>\<open>Parser.parse_import\<close>: the loop over the dotted path, then the method.\<close>

partial_function (option) parse_import_path :: "string list \<Rightarrow> Parser \<Rightarrow> string list result"
where
  "parse_import_path path p =
     (if tvalue (current_token p) = ''.''
      then and_then (Some (expect ''.'' p)) (\<lambda>_ p.
           and_then (Some (expect ''IDENT'' p)) (\<lambda>t p.
           parse_import_path (path @ [tvalue t]) p))
      else Some (Inr (path, p)))"

declare parse_import_path.simps [code]

definition parse_import :: "Parser \<Rightarrow> string result" where
  "parse_import p =
     and_then (Some (expect ''import'' p)) (\<lambda>_ p.
     and_then (Some (expect ''IDENT'' p)) (\<lambda>t p.
     and_then (parse_import_path [tvalue t] p) (\<lambda>path p.
     and_then (Some (expect '';'' p)) (\<lambda>_ p.
     Some (Inr (join ''.'' path, p))))))"

text \<open>
  \<^verbatim>\<open>Parser.parse_function\<close>: the parameter loop, the statement loop, then the
  method. A round of the parameter loop reads \<^verbatim>\<open>IDENT : IDENT\<close> and then consumes a
  comma if one is current.
\<close>

partial_function (option) parse_function_params ::
  "(string \<times> string) list \<Rightarrow> Parser \<Rightarrow> (string \<times> string) list result"
where
  "parse_function_params params p =
     (if tvalue (current_token p) \<noteq> '')''
      then and_then (Some (expect ''IDENT'' p)) (\<lambda>param_name p.
           and_then (Some (expect '':'' p)) (\<lambda>_ p.
           and_then (Some (expect ''IDENT'' p)) (\<lambda>param_type p.
           and_then (if tvalue (current_token p) = '',''
                     then Some (expect '','' p)
                     else Some (Inr (current_token p, p))) (\<lambda>_ p.
           parse_function_params (params @ [(tvalue param_name, tvalue param_type)]) p))))
      else Some (Inr (params, p)))"

declare parse_function_params.simps [code]

partial_function (option) parse_function_body :: "Statement list \<Rightarrow> Parser \<Rightarrow> Statement list result"
where
  "parse_function_body body p =
     (if tvalue (current_token p) \<noteq> ''}''
      then and_then (parse_statement p) (\<lambda>stmt p. parse_function_body (body @ [stmt]) p)
      else Some (Inr (body, p)))"

declare parse_function_body.simps [code]

definition parse_function :: "Parser \<Rightarrow> Function result" where
  "parse_function p =
     and_then (Some (expect ''func'' p)) (\<lambda>_ p.
     and_then (Some (expect ''IDENT'' p)) (\<lambda>name p.
     and_then (Some (expect ''('' p)) (\<lambda>_ p.
     and_then (parse_function_params [] p) (\<lambda>params p.
     and_then (Some (expect '')'' p)) (\<lambda>_ p.
     and_then (if tvalue (current_token p) = ''->''
               then and_then (Some (expect ''->'' p)) (\<lambda>_ p.
                    and_then (Some (expect ''IDENT'' p)) (\<lambda>t p. Some (Inr (tvalue t, p))))
               else Some (Inr (''void'', p))) (\<lambda>returns p.
     and_then (Some (expect ''{'' p)) (\<lambda>_ p.
     and_then (parse_function_body [] p) (\<lambda>body p.
     and_then (Some (expect ''}'' p)) (\<lambda>_ p.
     Some (Inr (\<lparr>f_name = tvalue name, f_params = params, f_returns = returns,
                  f_body = body\<rparr>, p)))))))))))"

text \<open>\<^verbatim>\<open>Parser.parse_module\<close>: the import loop, the function loop, then the method.\<close>

partial_function (option) parse_module_imports :: "string list \<Rightarrow> Parser \<Rightarrow> string list result"
where
  "parse_module_imports imports p =
     (if tvalue (current_token p) = ''import''
      then and_then (parse_import p) (\<lambda>imp p. parse_module_imports (imports @ [imp]) p)
      else Some (Inr (imports, p)))"

declare parse_module_imports.simps [code]

partial_function (option) parse_module_functions ::
  "Function list \<Rightarrow> Parser \<Rightarrow> Function list result"
where
  "parse_module_functions functions p =
     (if tvalue (current_token p) = ''func''
      then and_then (parse_function p) (\<lambda>f p. parse_module_functions (functions @ [f]) p)
      else Some (Inr (functions, p)))"

declare parse_module_functions.simps [code]

definition parse_module :: "Parser \<Rightarrow> Module result" where
  "parse_module p =
     and_then (Some (expect ''module'' p)) (\<lambda>_ p.
     and_then (Some (expect ''IDENT'' p)) (\<lambda>name p.
     and_then (Some (expect '';'' p)) (\<lambda>_ p.
     and_then (parse_module_imports [] p) (\<lambda>imports p.
     and_then (parse_module_functions [] p) (\<lambda>functions p.
     Some (Inr (\<lparr>m_name = tvalue name, m_imports = imports, m_functions = functions\<rparr>,
                p)))))))"

text \<open>
  \<^verbatim>\<open>Parser(tokens).parse()\<close>, as the driver calls it: the module, or the exception,
  or \<open>None\<close> if the call does not return.
\<close>

definition parse :: "Token list \<Rightarrow> (error + Module) option" where
  "parse toks = map_option (map_sum id fst) (parse_module (Parser_init toks))"

section \<open>Code generator\<close>

record CodeGenerator =
  output_lines :: "string list"
  indent :: int

text \<open>\<^verbatim>\<open>CodeGenerator.__init__\<close>.\<close>

definition CodeGenerator_init :: CodeGenerator where
  "CodeGenerator_init = \<lparr>output_lines = [], indent = 0\<rparr>"

text \<open>
  \<^verbatim>\<open>CodeGenerator.emit\<close>: four spaces for each level of indentation (none for a
  negative level, as Python repeats a string), then the line.
\<close>

definition emit :: "string \<Rightarrow> CodeGenerator \<Rightarrow> CodeGenerator" where
  "emit line g = g\<lparr>output_lines := output_lines g @ [concat (replicate (nat (indent g)) ''    '') @ line]\<rparr>"

text \<open>\<^verbatim>\<open>CodeGenerator.get_code\<close>.\<close>

definition get_code :: "CodeGenerator \<Rightarrow> string" where
  "get_code g = join [newline] (output_lines g)"

text \<open>
  The dictionary \<^verbatim>\<open>type_map\<close> of \<^verbatim>\<open>generate_function\<close>, and \<^verbatim>\<open>dict.get(key, default)\<close>.
\<close>

definition type_map :: "string \<rightharpoonup> string" where
  "type_map = map_of
     [(''int'', ''int''), (''void'', ''void''), (''word'', ''size_t''), (''ptr'', ''void*'')]"

definition dict_get :: "('k \<rightharpoonup> 'v) \<Rightarrow> 'k \<Rightarrow> 'v \<Rightarrow> 'v" where
  "dict_get d key dflt = (case d key of Some v \<Rightarrow> v | None \<Rightarrow> dflt)"

text \<open>
  \<^verbatim>\<open>CodeGenerator.generate_call\<close>. For \<^verbatim>\<open>print\<close> the source reads
  \<^verbatim>\<open>call.args[0]\<close>, which raises \<^verbatim>\<open>IndexError\<close> on the empty list.
\<close>

definition generate_call :: "Statement \<Rightarrow> CodeGenerator \<Rightarrow> error + CodeGenerator" where
  "generate_call call g =
     (if call_func call = ''print''
      then (case call_args call of
              [] \<Rightarrow> Inl (IndexError ''list index out of range'')
            | arg # _ \<Rightarrow> Inr (emit (''printf('' @ sl_value arg @ '');'') g))
      else Inr (emit (call_func call @ ''('' @ join '', '' (map sl_value (call_args call)) @ '');'')
                  g))"

text \<open>
  \<^verbatim>\<open>CodeGenerator.generate_return\<close>. The value of a \<^verbatim>\<open>Return\<close> node is a
  \<^verbatim>\<open>StringLiteral\<close>, so the first branch of the source is the one taken.
\<close>

definition generate_return :: "Statement \<Rightarrow> CodeGenerator \<Rightarrow> CodeGenerator" where
  "generate_return ret g =
     (case ret_value ret of StringLiteral v \<Rightarrow> emit (''return '' @ v @ '';'') g)"

text \<open>\<^verbatim>\<open>CodeGenerator.generate_statement\<close>.\<close>

definition generate_statement :: "Statement \<Rightarrow> CodeGenerator \<Rightarrow> error + CodeGenerator" where
  "generate_statement stmt g =
     (case stmt of
        Call _ _ \<Rightarrow> generate_call stmt g
      | Return _ \<Rightarrow> Inr (generate_return stmt g))"

text \<open>The loop \<^verbatim>\<open>for stmt in func.body\<close> of \<^verbatim>\<open>generate_function\<close>.\<close>

fun generate_body :: "Statement list \<Rightarrow> CodeGenerator \<Rightarrow> error + CodeGenerator" where
  "generate_body [] g = Inr g"
| "generate_body (stmt # body) g =
     (case generate_statement stmt g of
        Inl e \<Rightarrow> Inl e
      | Inr g' \<Rightarrow> generate_body body g')"

text \<open>\<^verbatim>\<open>CodeGenerator.generate_function\<close>.\<close>

definition generate_function :: "Function \<Rightarrow> CodeGenerator \<Rightarrow> error + CodeGenerator" where
  "generate_function func g =
     (let return_type = dict_get type_map (f_returns func) ''int'';
          params = map (\<lambda>(name, typ). dict_get type_map typ ''int'' @ '' '' @ name) (f_params func);
          g = emit (return_type @ '' '' @ f_name func @ ''('' @ join '', '' params @ '') {'') g;
          g = g\<lparr>indent := indent g + 1\<rparr>
      in case generate_body (f_body func) g of
           Inl e \<Rightarrow> Inl e
         | Inr g \<Rightarrow>
             (let g = g\<lparr>indent := indent g - 1\<rparr>;
                  g = emit ''}'' g
              in Inr (emit '''' g)))"

text \<open>\<^verbatim>\<open>CodeGenerator.generate\<close>: the two loops, then the method.\<close>

fun generate_imports :: "string list \<Rightarrow> CodeGenerator \<Rightarrow> CodeGenerator" where
  "generate_imports [] g = g"
| "generate_imports (imp # imports) g =
     generate_imports imports
       (if imp = ''std.io'' then emit ''void std_io_print(const char* msg);'' g else g)"

fun generate_functions :: "Function list \<Rightarrow> CodeGenerator \<Rightarrow> error + CodeGenerator" where
  "generate_functions [] g = Inr g"
| "generate_functions (func # functions) g =
     (case generate_function func g of
        Inl e \<Rightarrow> Inl e
      | Inr g' \<Rightarrow> generate_functions functions g')"

definition generate :: "Module \<Rightarrow> CodeGenerator \<Rightarrow> error + CodeGenerator" where
  "generate module g =
     (let g = emit ''#include <stdio.h>'' g;
          g = emit ''#include <stdlib.h>'' g;
          g = emit '''' g;
          g = generate_imports (m_imports module) g;
          g = emit '''' g
      in generate_functions (m_functions module) g)"

section \<open>Driver\<close>

text \<open>
  \<^verbatim>\<open>RereCompiler.compile_to_c\<close> between reading the source file and writing the C
  file: tokenise, parse, generate with a fresh generator, take the text.
\<close>

definition compile_to_c :: "string \<Rightarrow> (error + string) option" where
  "compile_to_c src =
     (case parse (tokenize src) of
        None \<Rightarrow> None
      | Some (Inl e) \<Rightarrow> Some (Inl e)
      | Some (Inr ast) \<Rightarrow>
          (case generate ast CodeGenerator_init of
             Inl e \<Rightarrow> Some (Inl e)
           | Inr gen \<Rightarrow> Some (Inr (get_code gen))))"

section \<open>The type table in the words of the specification\<close>

text \<open>
  The specification gives the type mapping as a fixed table, \<^verbatim>\<open>int\<close> to \<^verbatim>\<open>int\<close>,
  \<^verbatim>\<open>void\<close> to \<^verbatim>\<open>void\<close>, \<^verbatim>\<open>word\<close> to \<^verbatim>\<open>size_t\<close>, \<^verbatim>\<open>ptr\<close> to \<^verbatim>\<open>void*\<close>, and every
  other name to \<^verbatim>\<open>int\<close>. This function is that table; the generator itself uses
  \<open>dict_get type_map\<close>.
\<close>

definition spec_c_type :: "string \<Rightarrow> string" where
  "spec_c_type t =
     (if t = ''int'' then ''int''
      else if t = ''void'' then ''void''
      else if t = ''word'' then ''size_t''
      else if t = ''ptr'' then ''void*''
      else ''int'')"

section \<open>Properties of the lexer\<close>

lemma consistent_None: "consistent l \<Longrightarrow> current_char l = None \<Longrightarrow> length (source l) \<le> pos l"
  by (auto simp: consistent_def split: if_splits)

lemma consistent_Some:
  "consistent l \<Longrightarrow> current_char l = Some c \<Longrightarrow> pos l < length (source l) \<and> c = source l ! pos l"
  by (auto simp: consistent_def split: if_splits)

lemma advance_fields [simp]:
  "source (Lexer_advance l) = source l" "pos (Lexer_advance l) = Suc (pos l)"
  by (simp_all add: Lexer_advance_def Let_def)

lemma advance_at_end:
  "length (source l) \<le> Suc (pos l) \<Longrightarrow> current_char (Lexer_advance l) = None"
  by (simp add: Lexer_advance_def Let_def)

lemma get_string_loop_no_quote:
  "consistent l \<Longrightarrow> dquote \<notin> set (drop (pos l) (source l)) \<Longrightarrow>
     fst (get_string_loop r l) = r @ drop (pos l) (source l) \<and>
     current_char (snd (get_string_loop r l)) = None \<and>
     consistent (snd (get_string_loop r l))"
proof (induction r l rule: get_string_loop.induct)
  case (1 result l)
  show ?case
  proof (cases "current_char l")
    case None
    with "1.prems" consistent_None [of l] show ?thesis
      by (simp add: get_string_loop.simps [of result l])
  next
    case (Some c)
    from consistent_Some [OF "1.prems"(1) Some]
    have lt: "pos l < length (source l)" and c: "c = source l ! pos l" by auto
    from lt have dr: "drop (pos l) (source l) = c # drop (Suc (pos l)) (source l)"
      by (simp add: c Cons_nth_drop_Suc)
    with "1.prems"(2) have ne: "c \<noteq> dquote"
      and rest: "dquote \<notin> set (drop (pos (Lexer_advance l)) (source (Lexer_advance l)))"
      by auto
    from "1.IH" [OF Some ne consistent_advance rest] Some ne dr
    show ?thesis by (simp add: get_string_loop.simps [of result l])
  qed
qed

lemma dquote_class:
  "\<not> isspace dquote" "\<not> isalpha dquote" "dquote \<noteq> CHR ''/''" "dquote \<noteq> CHR ''_''"
  by (simp_all add: isspace_def isalpha_def)

text \<open>
  The tokens the lexer can return: the end token, a keyword or identifier token made of
  identifier characters, a string token in quotes, a punctuation token.
\<close>

definition lexer_token :: "Token \<Rightarrow> bool" where
  "lexer_token t \<longleftrightarrow>
     t = \<lparr>ttype = ''EOF'', tvalue = ''''\<rparr> \<or>
     (\<exists>ident. (\<forall>c \<in> set ident. isalnum c \<or> c = CHR ''_'') \<and>
        (ident \<in> KEYWORDS \<and> t = \<lparr>ttype = upper ident, tvalue = ident\<rparr> \<or>
         ident \<notin> KEYWORDS \<and> t = \<lparr>ttype = ''IDENT'', tvalue = ident\<rparr>)) \<or>
     (\<exists>s. t = \<lparr>ttype = ''STRING'', tvalue = dquote # s @ [dquote]\<rparr>) \<or>
     (\<exists>c \<in> punctuation. t = \<lparr>ttype = [c], tvalue = [c]\<rparr>)"

lemma get_identifier_loop_chars:
  "get_identifier_loop r l = (r', l') \<Longrightarrow> \<forall>c \<in> set r. isalnum c \<or> c = CHR ''_'' \<Longrightarrow>
     \<forall>c \<in> set r'. isalnum c \<or> c = CHR ''_''"
proof (induction r l arbitrary: r' l' rule: get_identifier_loop.induct)
  case (1 result l)
  show ?case
  proof (cases "current_char l")
    case None
    with "1.prems" show ?thesis by (simp add: get_identifier_loop.simps [of result l])
  next
    case (Some c)
    show ?thesis
    proof (cases "isalnum c \<or> c = CHR ''_''")
      case True
      with Some "1.prems" have "get_identifier_loop (result @ [c]) (Lexer_advance l) = (r', l')"
        by (simp add: get_identifier_loop.simps [of result l])
      moreover have "\<forall>c \<in> set (result @ [c]). isalnum c \<or> c = CHR ''_''"
        using True "1.prems"(2) by auto
      ultimately show ?thesis by (rule "1.IH" [OF Some True])
    next
      case False
      with Some "1.prems" show ?thesis by (simp add: get_identifier_loop.simps [of result l])
    qed
  qed
qed

lemma get_next_token_lexer_token: "get_next_token l = (t, l') \<Longrightarrow> lexer_token t"
proof (induction l arbitrary: t l' rule: get_next_token.induct)
  case (1 l)
  show ?case
  proof (cases "current_char l")
    case None
    with "1.prems" show ?thesis by (auto simp: get_next_token_eof lexer_token_def)
  next
    case (Some c)
    let ?cm = "c = CHR ''/'' \<and> pos l + 1 < length (source l) \<and> source l ! (pos l + 1) = CHR ''/''"
    consider (ws) "isspace c"
      | (comment) "\<not> isspace c" "?cm"
      | (ident) "\<not> isspace c" "\<not> ?cm" "isalpha c \<or> c = CHR ''_''"
      | (str) "\<not> isspace c" "\<not> ?cm" "\<not> (isalpha c \<or> c = CHR ''_'')" "c = dquote"
      | (punct) "\<not> isspace c" "\<not> ?cm" "\<not> (isalpha c \<or> c = CHR ''_'')" "c \<noteq> dquote"
          "c \<in> punctuation"
      | (other) "\<not> isspace c" "\<not> ?cm" "\<not> (isalpha c \<or> c = CHR ''_'')" "c \<noteq> dquote"
          "c \<notin> punctuation"
      by blast
    then show ?thesis
    proof cases
      case ws
      with "1.prems" have "get_next_token (skip_whitespace l) = (t, l')"
        by (simp add: get_next_token_space [OF Some])
      then show ?thesis by (rule "1.IH"(1) [OF Some ws])
    next
      case comment
      with "1.prems" have "get_next_token (skip_comment l) = (t, l')"
        by (simp add: get_next_token_comment [OF Some])
      then show ?thesis by (rule "1.IH"(2) [OF Some comment(1) comment(2)])
    next
      case ident
      obtain i li where gi: "get_identifier l = (i, li)" by (cases "get_identifier l")
      then have "\<forall>c \<in> set i. isalnum c \<or> c = CHR ''_''"
        using get_identifier_loop_chars [of "[]" l i li] by (simp add: get_identifier_def)
      moreover from "1.prems" gi
      have "i \<in> KEYWORDS \<and> t = \<lparr>ttype = upper i, tvalue = i\<rparr> \<or>
            i \<notin> KEYWORDS \<and> t = \<lparr>ttype = ''IDENT'', tvalue = i\<rparr>"
        by (auto simp: get_next_token_ident [OF Some ident] split: if_splits)
      ultimately show ?thesis unfolding lexer_token_def by blast
    next
      case str
      obtain s ls where gs: "get_string l = (s, ls)" by (cases "get_string l")
      then obtain b where "s = dquote # b @ [dquote]"
        by (auto simp: get_string_def split_beta)
      with "1.prems" gs show ?thesis
        by (auto simp: get_next_token_string [OF Some str] lexer_token_def)
    next
      case punct
      with "1.prems" show ?thesis
        by (auto simp: get_next_token_punct [OF Some punct] lexer_token_def)
    next
      case other
      with "1.prems" have "get_next_token (Lexer_advance l) = (t, l')"
        by (simp add: get_next_token_other [OF Some other])
      then show ?thesis
        by (rule "1.IH"(3) [OF Some other(1) other(2) other(3) other(4) other(5)])
    qed
  qed
qed

lemma tokenize_loop_tokens:
  "\<forall>t \<in> set toks. lexer_token t \<Longrightarrow> \<forall>t \<in> set (tokenize_loop toks l). lexer_token t"
proof (induction toks l rule: tokenize_loop.induct)
  case (1 tokens l)
  obtain token l' where g: "get_next_token l = (token, l')" by (cases "get_next_token l")
  show ?case
  proof (cases "ttype token = ''EOF''")
    case True
    with g "1.prems" show ?thesis by (simp add: tokenize_loop.simps [of tokens l])
  next
    case False
    have "\<forall>t \<in> set (tokens @ [token]). lexer_token t"
      using "1.prems" get_next_token_lexer_token [OF g] by auto
    from "1.IH" [OF g [symmetric] refl False this] g False
    show ?thesis by (simp add: tokenize_loop.simps [of tokens l])
  qed
qed

lemma tokenize_tokens: "t \<in> set (tokenize src) \<Longrightarrow> lexer_token t"
  using tokenize_loop_tokens [of "[]" "Lexer_init src"] by (simp add: tokenize_def)

lemma punctuation_chars:
  "c \<in> punctuation \<Longrightarrow> c \<noteq> CHR ''-'' \<and> c \<noteq> CHR ''>''"
  by (auto simp: punctuation_def)

lemma not_identifier_chars:
  "\<not> isalnum (CHR ''-'')" "\<not> isalnum (CHR ''>'')"
  by (simp_all add: isalnum_def isalpha_def)

lemma lexer_token_no_arrow:
  assumes "lexer_token t"
  shows "tvalue t \<noteq> ''-'' \<and> tvalue t \<noteq> ''>'' \<and> tvalue t \<noteq> ''->''"
proof -
  have ident: "ident \<noteq> ''-'' \<and> ident \<noteq> ''>'' \<and> ident \<noteq> ''->''"
    if "\<forall>c \<in> set ident. isalnum c \<or> c = CHR ''_''" for ident
    using that not_identifier_chars by auto
  from assms show ?thesis
    unfolding lexer_token_def using ident punctuation_chars by auto
qed

lemma upper_keywords:
  "upper ''module'' = ''MODULE''" "upper ''import'' = ''IMPORT''"
  "upper ''func'' = ''FUNC''" "upper ''return'' = ''RETURN''"
  by code_simp+

lemma lexer_token_keyword:
  assumes "lexer_token t"
  shows "(tvalue t = ''module'' \<longrightarrow> ttype t = ''MODULE'') \<and>
         (tvalue t = ''import'' \<longrightarrow> ttype t = ''IMPORT'') \<and>
         (tvalue t = ''func'' \<longrightarrow> ttype t = ''FUNC'') \<and>
         (tvalue t = ''return'' \<longrightarrow> ttype t = ''RETURN'')"
  using assms unfolding lexer_token_def
  by (auto simp: upper_keywords KEYWORDS_def)

lemma get_identifier_loop_run:
  "consistent l \<Longrightarrow>
     fst (get_identifier_loop r l) =
       r @ takeWhile (\<lambda>c. isalnum c \<or> c = CHR ''_'') (drop (pos l) (source l))"
proof (induction r l rule: get_identifier_loop.induct)
  case (1 result l)
  show ?case
  proof (cases "current_char l")
    case None
    with "1.prems" consistent_None [of l] show ?thesis
      by (simp add: get_identifier_loop.simps [of result l])
  next
    case (Some c)
    from consistent_Some [OF "1.prems" Some]
    have lt: "pos l < length (source l)" and c: "c = source l ! pos l" by auto
    from lt have dr: "drop (pos l) (source l) = c # drop (Suc (pos l)) (source l)"
      by (simp add: c Cons_nth_drop_Suc)
    show ?thesis
    proof (cases "isalnum c \<or> c = CHR ''_''")
      case True
      from "1.IH" [OF Some True consistent_advance] Some True dr
      show ?thesis by (simp add: get_identifier_loop.simps [of result l])
    next
      case False
      with Some dr show ?thesis by (simp add: get_identifier_loop.simps [of result l])
    qed
  qed
qed

lemma keyword_chars:
  assumes "k \<in> KEYWORDS"
  shows "k \<noteq> []" "isalpha (hd k)" "\<forall>c \<in> set k. isalnum c \<or> c = CHR ''_''"
  using assms by (auto simp: KEYWORDS_def isalnum_def isalpha_def)

lemma isalpha_not_space: "isalpha c \<Longrightarrow> \<not> isspace c"
  by (auto simp: isalpha_def isspace_def Let_def)

lemma isalpha_not_slash: "isalpha c \<Longrightarrow> c \<noteq> CHR ''/''"
  by (auto simp: isalpha_def)

section \<open>Properties of the parser\<close>

text \<open>
  A parser state is well formed when \<^verbatim>\<open>current_token\<close> is the token at \<^verbatim>\<open>pos\<close>, or the
  \<^verbatim>\<open>EOF\<close> token past the end. The constructor and \<^verbatim>\<open>advance\<close> establish it.
\<close>

definition pwf :: "Parser \<Rightarrow> bool" where
  "pwf p \<longleftrightarrow>
     current_token p = (if tpos p < length (tokens p) then tokens p ! tpos p else EOF_token)"

text \<open>
  \<open>follows p p'\<close>: the state \<open>p'\<close> is a well-formed state over the tokens of \<open>p\<close>, not
  before \<open>p\<close>. \<open>advanced p p'\<close>: moreover at least one token of the list was consumed.
\<close>

definition follows :: "Parser \<Rightarrow> Parser \<Rightarrow> bool" where
  "follows p p' \<longleftrightarrow> pwf p' \<and> tokens p' = tokens p \<and> tpos p \<le> tpos p'"

definition advanced :: "Parser \<Rightarrow> Parser \<Rightarrow> bool" where
  "advanced p p' \<longleftrightarrow> follows p p' \<and> tpos p < tpos p' \<and> tpos p < length (tokens p)"

lemma pwf_init: "pwf (Parser_init toks)"
  by (cases toks) (simp_all add: pwf_def Parser_init_def)

lemma pwf_advance: "pwf (Parser_advance p)"
  by (simp add: pwf_def Parser_advance_def Let_def)

lemma follows_refl: "pwf p \<Longrightarrow> follows p p"
  by (simp add: follows_def)

lemma advanced_follows: "advanced p p' \<Longrightarrow> follows p p'"
  by (simp add: advanced_def)

lemma follows_pwf: "follows p p' \<Longrightarrow> pwf p'"
  by (simp add: follows_def)

lemma advanced_pwf: "advanced p p' \<Longrightarrow> pwf p'"
  by (simp add: advanced_def follows_def)

lemma follows_tokens: "follows p p' \<Longrightarrow> tokens p' = tokens p"
  by (simp add: follows_def)

lemma advanced_tokens: "advanced p p' \<Longrightarrow> tokens p' = tokens p"
  by (simp add: advanced_def follows_def)

lemma follows_trans: "follows p q \<Longrightarrow> follows q r \<Longrightarrow> follows p r"
  by (simp add: follows_def)

lemma advanced_follows_trans: "advanced p q \<Longrightarrow> follows q r \<Longrightarrow> advanced p r"
  by (simp add: advanced_def follows_def)

lemma follows_advanced_trans: "follows p q \<Longrightarrow> advanced q r \<Longrightarrow> advanced p r"
  by (simp add: advanced_def follows_def)

lemma advanced_trans: "advanced p q \<Longrightarrow> advanced q r \<Longrightarrow> advanced p r"
  by (simp add: advanced_def follows_def)

lemma advanced_measure:
  "advanced p p' \<Longrightarrow> length (tokens p') - tpos p' < length (tokens p) - tpos p"
  by (auto simp: advanced_def follows_def)

text \<open>
  Past the end the current token is \<^verbatim>\<open>Token('EOF', '')\<close>, which matches no expectation
  but \<^verbatim>\<open>EOF\<close> and the empty string; so an expectation that is met consumes a token of
  the list.
\<close>

lemma expect_advanced:
  assumes "pwf p" "expect e p = Inr (t, p')" "e \<noteq> ''EOF''" "e \<noteq> ''''"
  shows "advanced p p' \<and> t = current_token p \<and> (ttype t = e \<or> tvalue t = e)"
proof -
  from assms(2) have m: "ttype (current_token p) = e \<or> tvalue (current_token p) = e"
    and p': "p' = Parser_advance p" and t: "t = current_token p"
    by (auto simp: expect_def split: if_splits)
  have "tpos p < length (tokens p)"
  proof (rule ccontr)
    assume "\<not> tpos p < length (tokens p)"
    with assms(1) have "current_token p = EOF_token" by (simp add: pwf_def)
    with m assms(3,4) show False by (auto simp: EOF_token_def)
  qed
  then have "advanced p p'"
    unfolding p' advanced_def follows_def using pwf_advance [of p]
    by (simp add: Parser_advance_def Let_def)
  with m t show ?thesis by simp
qed

lemma current_token_cases:
  "pwf p \<Longrightarrow> current_token p \<in> set (tokens p) \<or> current_token p = EOF_token"
  by (auto simp: pwf_def)

text \<open>Sequencing: what it means that \<open>and_then\<close> returns a value, and that it returns.\<close>

lemma and_then_simps [simp]:
  "and_then None f = None"
  "and_then (Some (Inl e)) f = Some (Inl e)"
  "and_then (Some (Inr (x, p))) f = f x p"
  by (simp_all add: and_then_def)

lemma and_then_Inr:
  "and_then m f = Some (Inr r) \<longleftrightarrow> (\<exists>x p. m = Some (Inr (x, p)) \<and> f x p = Some (Inr r))"
  by (auto simp: and_then_def split: option.splits sum.splits)

lemma and_then_returns:
  "(\<exists>r. and_then m f = Some r) \<longleftrightarrow>
     (\<exists>r. m = Some r) \<and> (\<forall>x p. m = Some (Inr (x, p)) \<longrightarrow> (\<exists>r. f x p = Some r))"
  by (auto simp: and_then_def split: option.splits sum.splits)

lemma and_then_assoc:
  "and_then (and_then m f) g = and_then m (\<lambda>x p. and_then (f x p) g)"
  by (auto simp: and_then_def split: option.splits sum.splits)

text \<open>
  The loops of the parser all have one shape: while a test on the current token holds,
  run a body that raises or returns an item, append the item, and go on. If the body
  always returns or raises, and consumes a token when it returns, then so does the loop:
  it returns or raises, in a state that follows the first one, and every item it returns
  was there at the start or comes from the body.
\<close>

lemma while_loop:
  assumes unfold: "\<And>acc p. loop acc p =
      (if c p then and_then (body p) (\<lambda>x p1. loop (acc @ [x]) p1) else Some (Inr (acc, p)))"
    and body: "\<And>p. pwf p \<Longrightarrow> c p \<Longrightarrow>
      (\<exists>r. body p = Some r) \<and>
      (\<forall>x p1. body p = Some (Inr (x, p1)) \<longrightarrow> advanced p p1 \<and> Q (tokens p) x)"
    and wf: "pwf p"
  shows "(\<exists>r. loop acc p = Some r) \<and>
         (\<forall>xs p'. loop acc p = Some (Inr (xs, p')) \<longrightarrow>
            follows p p' \<and> (\<forall>x \<in> set xs. x \<in> set acc \<or> Q (tokens p) x))"
  using wf
proof (induction "length (tokens p) - tpos p" arbitrary: acc p rule: less_induct)
  case less
  show ?case
  proof (cases "c p")
    case False
    with less.prems show ?thesis by (simp add: unfold [of acc p] follows_refl)
  next
    case True
    note u = unfold [of acc p]
    from body [OF less.prems True] obtain r where r: "body p = Some r"
      and adv: "\<And>x p1. body p = Some (Inr (x, p1)) \<Longrightarrow> advanced p p1 \<and> Q (tokens p) x"
      by blast
    show ?thesis
    proof (cases r)
      case (Inl e)
      with r True show ?thesis by (simp add: u)
    next
      case (Inr xp)
      obtain x p1 where xp: "xp = (x, p1)" by (cases xp)
      with r Inr have b: "body p = Some (Inr (x, p1))" by simp
      from adv [OF b] have a: "advanced p p1" and q: "Q (tokens p) x" by simp_all
      have eq: "loop acc p = loop (acc @ [x]) p1" using True b by (simp add: u)
      from less.hyps [OF advanced_measure [OF a] advanced_pwf [OF a], of "acc @ [x]"]
      have ex: "\<exists>r. loop (acc @ [x]) p1 = Some r"
        and rest: "\<And>xs p'. loop (acc @ [x]) p1 = Some (Inr (xs, p')) \<Longrightarrow>
            follows p1 p' \<and> (\<forall>y \<in> set xs. y \<in> set (acc @ [x]) \<or> Q (tokens p1) y)"
        by blast+
      show ?thesis
      proof (intro conjI allI impI)
        show "\<exists>r. loop acc p = Some r" using ex eq by simp
      next
        fix xs p'
        assume "loop acc p = Some (Inr (xs, p'))"
        with eq have "loop (acc @ [x]) p1 = Some (Inr (xs, p'))" by simp
        from rest [OF this] have f: "follows p1 p'"
          and ys: "\<forall>y \<in> set xs. y \<in> set (acc @ [x]) \<or> Q (tokens p1) y" by simp_all
        from a f show "follows p p'"
          using advanced_follows follows_trans by blast
        from ys q advanced_tokens [OF a]
        show "\<forall>x \<in> set xs. x \<in> set acc \<or> Q (tokens p) x" by auto
      qed
    qed
  qed
qed

text \<open>
  What is proved of each parsing method \<open>m\<close> started in a well-formed state: it returns
  or raises, and when it returns \<open>x\<close> in state \<open>p'\<close>, then \<open>R p'\<close> and \<open>Q x\<close>.
\<close>

definition returns_with :: "(Parser \<Rightarrow> bool) \<Rightarrow> ('a \<Rightarrow> bool) \<Rightarrow> 'a result \<Rightarrow> bool" where
  "returns_with R Q m \<longleftrightarrow>
     (\<exists>r. m = Some r) \<and> (\<forall>x p'. m = Some (Inr (x, p')) \<longrightarrow> R p' \<and> Q x)"

lemma returns_with_error [simp]: "returns_with R Q (Some (Inl e))"
  by (simp add: returns_with_def)

lemma returns_with_value [simp]: "returns_with R Q (Some (Inr (x, p))) \<longleftrightarrow> R p \<and> Q x"
  by (simp add: returns_with_def)

lemma returns_with_weaken:
  "returns_with R Q m \<Longrightarrow> (\<And>p'. R p' \<Longrightarrow> R' p') \<Longrightarrow> (\<And>x. Q x \<Longrightarrow> Q' x) \<Longrightarrow>
     returns_with R' Q' m"
  by (auto simp: returns_with_def)

lemma returns_with_and_then:
  assumes "returns_with R1 Q1 m"
    and "\<And>x p1. R1 p1 \<Longrightarrow> Q1 x \<Longrightarrow> returns_with R Q (f x p1)"
  shows "returns_with R Q (and_then m f)"
  using assms unfolding returns_with_def
  by (auto simp: and_then_def split: option.splits sum.splits)

lemma returns_with_expect:
  assumes "pwf p" "e \<noteq> ''EOF''" "e \<noteq> ''''"
  shows "returns_with (advanced p) (\<lambda>t. t = current_token p) (Some (expect e p))"
  using expect_advanced [OF assms(1) _ assms(2,3)]
  by (auto simp: returns_with_def)

lemma returns_with_expect_then:
  assumes "pwf p" "e \<noteq> ''EOF''" "e \<noteq> ''''"
    and "\<And>t p1. advanced p p1 \<Longrightarrow> t = current_token p \<Longrightarrow> returns_with R Q (f t p1)"
  shows "returns_with R Q (and_then (Some (expect e p)) f)"
  using returns_with_and_then [OF returns_with_expect [OF assms(1-3)], of R Q f] assms(4)
  by simp

text \<open>The consumption of a comma that may follow a parameter or an argument.\<close>

lemma returns_with_optional:
  assumes "pwf p" "e \<noteq> ''EOF''" "e \<noteq> ''''"
  shows "returns_with (follows p) (\<lambda>_. True)
           (if b then Some (expect e p) else Some (Inr (current_token p, p)))"
  using returns_with_weaken [OF returns_with_expect [OF assms], of "follows p" "\<lambda>_. True"]
    assms(1)
  by (simp add: advanced_follows follows_refl)

lemma while_loop_returns:
  assumes unfold: "\<And>acc p. loop acc p =
      (if c p then and_then (body p) (\<lambda>x p1. loop (acc @ [x]) p1) else Some (Inr (acc, p)))"
    and body: "\<And>p. pwf p \<Longrightarrow> c p \<Longrightarrow> returns_with (advanced p) (Q (tokens p)) (body p)"
    and wf: "pwf p"
  shows "returns_with (follows p) (\<lambda>xs. \<forall>x \<in> set xs. x \<in> set acc \<or> Q (tokens p) x)
           (loop acc p)"
  unfolding returns_with_def
  by (rule while_loop [of loop c body Q, OF unfold _ wf])
    (use body in \<open>simp add: returns_with_def\<close>)

subsection \<open>Statements\<close>

lemma parse_expression_returns:
  "pwf p \<Longrightarrow> returns_with (advanced p) (\<lambda>_. True) (parse_expression p)"
  unfolding parse_expression_def
  by (auto intro!: returns_with_expect_then)

lemma parse_return_returns:
  "pwf p \<Longrightarrow> returns_with (advanced p) (\<lambda>_. True) (parse_return p)"
  unfolding parse_return_def
  by (auto intro!: returns_with_expect_then returns_with_and_then [OF parse_expression_returns]
      simp: advanced_def follows_def)

text \<open>
  One round of the argument loop of \<^verbatim>\<open>parse_call\<close>, as a function that returns the
  argument: an expression, then the comma if one is current. The loop is this round
  followed by the append (lemma \<open>parse_call_args_unfold\<close>).
\<close>

definition call_args_body :: "Parser \<Rightarrow> Expression result" where
  "call_args_body p =
     and_then (parse_expression p) (\<lambda>arg p.
     and_then (if tvalue (current_token p) = '',''
               then Some (expect '','' p)
               else Some (Inr (current_token p, p))) (\<lambda>_ p.
     Some (Inr (arg, p))))"

lemma parse_call_args_unfold:
  "parse_call_args acc p =
     (if tvalue (current_token p) \<noteq> '')''
      then and_then (call_args_body p) (\<lambda>x p1. parse_call_args (acc @ [x]) p1)
      else Some (Inr (acc, p)))"
  by (subst parse_call_args.simps) (simp add: call_args_body_def and_then_assoc)

lemma call_args_body_returns:
  "pwf p \<Longrightarrow> returns_with (advanced p) (\<lambda>_. True) (call_args_body p)"
  unfolding call_args_body_def
  by (rule returns_with_and_then [OF parse_expression_returns], assumption,
      rule returns_with_and_then [OF returns_with_optional])
    (auto simp: advanced_pwf intro: advanced_follows_trans)

lemma parse_call_args_returns:
  "pwf p \<Longrightarrow> returns_with (follows p) (\<lambda>_. True) (parse_call_args acc p)"
  by (rule returns_with_weaken
      [OF while_loop_returns [of parse_call_args _ call_args_body "\<lambda>_ _. True",
          OF parse_call_args_unfold call_args_body_returns]])
    simp_all

lemma parse_call_returns:
  "pwf p \<Longrightarrow> returns_with (advanced p) (\<lambda>_. True) (parse_call p)"
  unfolding parse_call_def
  by (auto intro!: returns_with_expect_then returns_with_and_then [OF parse_call_args_returns]
      simp: advanced_def follows_def)

lemma parse_statement_returns:
  "pwf p \<Longrightarrow> returns_with (advanced p) (\<lambda>_. True) (parse_statement p)"
  unfolding parse_statement_def
  by (simp add: parse_return_returns parse_call_returns)

lemma parse_function_body_unfold:
  "parse_function_body acc p =
     (if tvalue (current_token p) \<noteq> ''}''
      then and_then (parse_statement p) (\<lambda>x p1. parse_function_body (acc @ [x]) p1)
      else Some (Inr (acc, p)))"
  by (subst parse_function_body.simps) simp

lemma parse_function_body_returns:
  "pwf p \<Longrightarrow> returns_with (follows p) (\<lambda>_. True) (parse_function_body acc p)"
  by (rule returns_with_weaken
      [OF while_loop_returns [of parse_function_body _ parse_statement "\<lambda>_ _. True",
          OF parse_function_body_unfold parse_statement_returns]])
    simp_all

subsection \<open>Imports\<close>

text \<open>
  One round of the path loop of \<^verbatim>\<open>parse_import\<close>: a dot, then an identifier, whose text
  the loop appends (lemma \<open>parse_import_path_unfold\<close>).
\<close>

definition import_path_body :: "Parser \<Rightarrow> string result" where
  "import_path_body p =
     and_then (Some (expect ''.'' p)) (\<lambda>_ p.
     and_then (Some (expect ''IDENT'' p)) (\<lambda>t p.
     Some (Inr (tvalue t, p))))"

lemma parse_import_path_unfold:
  "parse_import_path acc p =
     (if tvalue (current_token p) = ''.''
      then and_then (import_path_body p) (\<lambda>x p1. parse_import_path (acc @ [x]) p1)
      else Some (Inr (acc, p)))"
  by (subst parse_import_path.simps) (simp add: import_path_body_def and_then_assoc)

lemma import_path_body_returns:
  "pwf p \<Longrightarrow> returns_with (advanced p) (\<lambda>_. True) (import_path_body p)"
  unfolding import_path_body_def
  by (auto intro!: returns_with_expect_then simp: advanced_def follows_def)

lemma parse_import_path_returns:
  "pwf p \<Longrightarrow> returns_with (follows p) (\<lambda>_. True) (parse_import_path acc p)"
  by (rule returns_with_weaken
      [OF while_loop_returns [of parse_import_path _ import_path_body "\<lambda>_ _. True",
          OF parse_import_path_unfold import_path_body_returns]])
    simp_all

lemma parse_import_returns:
  "pwf p \<Longrightarrow> returns_with (advanced p) (\<lambda>_. True) (parse_import p)"
  unfolding parse_import_def
  by (auto intro!: returns_with_expect_then returns_with_and_then [OF parse_import_path_returns]
      simp: advanced_def follows_def)

lemma parse_module_imports_unfold:
  "parse_module_imports acc p =
     (if tvalue (current_token p) = ''import''
      then and_then (parse_import p) (\<lambda>x p1. parse_module_imports (acc @ [x]) p1)
      else Some (Inr (acc, p)))"
  by (subst parse_module_imports.simps) simp

lemma parse_module_imports_returns:
  "pwf p \<Longrightarrow> returns_with (follows p) (\<lambda>_. True) (parse_module_imports acc p)"
  by (rule returns_with_weaken
      [OF while_loop_returns [of parse_module_imports _ parse_import "\<lambda>_ _. True",
          OF parse_module_imports_unfold parse_import_returns]])
    simp_all

subsection \<open>Functions\<close>

text \<open>
  One round of the parameter loop of \<^verbatim>\<open>parse_function\<close>, as a function that returns the
  pair of name and type: \<^verbatim>\<open>IDENT : IDENT\<close>, then the comma if one is current. The loop is
  this round followed by the append (lemma \<open>parse_function_params_unfold\<close>).
\<close>

definition function_params_body :: "Parser \<Rightarrow> (string \<times> string) result" where
  "function_params_body p =
     and_then (Some (expect ''IDENT'' p)) (\<lambda>param_name p.
     and_then (Some (expect '':'' p)) (\<lambda>_ p.
     and_then (Some (expect ''IDENT'' p)) (\<lambda>param_type p.
     and_then (if tvalue (current_token p) = '',''
               then Some (expect '','' p)
               else Some (Inr (current_token p, p))) (\<lambda>_ p.
     Some (Inr ((tvalue param_name, tvalue param_type), p))))))"

lemma parse_function_params_unfold:
  "parse_function_params acc p =
     (if tvalue (current_token p) \<noteq> '')''
      then and_then (function_params_body p) (\<lambda>x p1. parse_function_params (acc @ [x]) p1)
      else Some (Inr (acc, p)))"
  by (subst parse_function_params.simps) (simp add: function_params_body_def and_then_assoc)

lemma function_params_body_returns:
  "pwf p \<Longrightarrow> returns_with (advanced p) (\<lambda>_. True) (function_params_body p)"
  unfolding function_params_body_def
  by (auto intro!: returns_with_expect_then returns_with_and_then [OF returns_with_optional]
      simp: advanced_def follows_def)

lemma parse_function_params_returns:
  "pwf p \<Longrightarrow> returns_with (follows p) (\<lambda>_. True) (parse_function_params acc p)"
  by (rule returns_with_weaken
      [OF while_loop_returns [of parse_function_params _ function_params_body "\<lambda>_ _. True",
          OF parse_function_params_unfold function_params_body_returns]])
    simp_all

text \<open>
  The return type. When no token of the list has the text \<^verbatim>\<open>->\<close>, the current token of
  a well-formed state has not either, and the return type stays \<^verbatim>\<open>void\<close>.
\<close>

lemma current_token_no_arrow:
  assumes "pwf p" "\<forall>t \<in> set (tokens p). tvalue t \<noteq> ''->''"
  shows "tvalue (current_token p) \<noteq> ''->''"
  using current_token_cases [OF assms(1)] assms(2) by (auto simp: EOF_token_def)

lemma return_type_returns:
  assumes "pwf p"
  shows "returns_with (follows p)
           (\<lambda>r. (\<forall>t \<in> set (tokens p). tvalue t \<noteq> ''->'') \<longrightarrow> r = ''void'')
           (if tvalue (current_token p) = ''->''
            then and_then (Some (expect ''->'' p)) (\<lambda>_ p.
                 and_then (Some (expect ''IDENT'' p)) (\<lambda>t p. Some (Inr (tvalue t, p))))
            else Some (Inr (''void'', p)))"
proof (cases "tvalue (current_token p) = ''->''")
  case True
  with current_token_no_arrow [OF assms]
  have "\<not> (\<forall>t \<in> set (tokens p). tvalue t \<noteq> ''->'')" by blast
  with True assms show ?thesis
    by (auto intro!: returns_with_expect_then simp: advanced_def follows_def)
next
  case False
  with assms show ?thesis by (simp add: follows_refl)
qed

lemma parse_function_returns:
  "pwf p \<Longrightarrow>
     returns_with (advanced p)
       (\<lambda>f. (\<forall>t \<in> set (tokens p). tvalue t \<noteq> ''->'') \<longrightarrow> f_returns f = ''void'')
       (parse_function p)"
  unfolding parse_function_def
  by (intro returns_with_expect_then returns_with_and_then [OF parse_function_params_returns]
        returns_with_and_then [OF return_type_returns]
        returns_with_and_then [OF parse_function_body_returns])
    (auto simp: advanced_def follows_def)

lemma parse_module_functions_unfold:
  "parse_module_functions acc p =
     (if tvalue (current_token p) = ''func''
      then and_then (parse_function p) (\<lambda>x p1. parse_module_functions (acc @ [x]) p1)
      else Some (Inr (acc, p)))"
  by (subst parse_module_functions.simps) simp

lemma parse_module_functions_returns:
  "pwf p \<Longrightarrow>
     returns_with (follows p)
       (\<lambda>fs. \<forall>f \<in> set fs. f \<in> set acc \<or>
          ((\<forall>t \<in> set (tokens p). tvalue t \<noteq> ''->'') \<longrightarrow> f_returns f = ''void''))
       (parse_module_functions acc p)"
  by (rule while_loop_returns
      [of parse_module_functions _ parse_function
          "\<lambda>ts f. (\<forall>t \<in> set ts. tvalue t \<noteq> ''->'') \<longrightarrow> f_returns f = ''void''",
       OF parse_module_functions_unfold parse_function_returns])

lemma parse_module_returns:
  "pwf p \<Longrightarrow>
     returns_with (follows p)
       (\<lambda>m. (\<forall>t \<in> set (tokens p). tvalue t \<noteq> ''->'') \<longrightarrow>
          (\<forall>f \<in> set (m_functions m). f_returns f = ''void''))
       (parse_module p)"
  unfolding parse_module_def
  by (intro returns_with_expect_then returns_with_and_then [OF parse_module_imports_returns]
        returns_with_and_then [OF parse_module_functions_returns [of _ "[]"]])
    (auto simp: advanced_def follows_def)

lemma parse_returns: "\<exists>r. parse toks = Some r"
  using parse_module_returns [OF pwf_init, of toks]
  by (auto simp: parse_def returns_with_def)

lemma parse_void:
  assumes "\<forall>t \<in> set toks. tvalue t \<noteq> ''->''" "parse toks = Some (Inr m)"
  shows "\<forall>f \<in> set (m_functions m). f_returns f = ''void''"
proof -
  from assms(2) obtain p' where "parse_module (Parser_init toks) = Some (Inr (m, p'))"
    by (cases "parse_module (Parser_init toks)")
      (auto simp: parse_def map_sum_def split: sum.splits)
  with parse_module_returns [OF pwf_init, of toks] assms(1) show ?thesis
    by (simp add: returns_with_def Parser_init_def)
qed

section \<open>Properties of the code generator\<close>

lemma emit_fields [simp]:
  "output_lines (emit line g) = output_lines g @ [concat (replicate (nat (indent g)) ''    '') @ line]"
  "indent (emit line g) = indent g"
  by (simp_all add: emit_def)

text \<open>The only exception of a statement is the \<^verbatim>\<open>IndexError\<close> of \<^verbatim>\<open>print()\<close>.\<close>

lemma generate_statement_error:
  "generate_statement stmt g = Inl e \<longleftrightarrow>
     stmt = Call ''print'' [] \<and> e = IndexError ''list index out of range''"
  by (cases stmt) (auto simp: generate_statement_def generate_call_def split: list.splits)

text \<open>A statement that returns has added lines and kept the indentation.\<close>

lemma generate_statement_appends:
  "generate_statement stmt g = Inr g' \<Longrightarrow>
     (\<exists>new. output_lines g' = output_lines g @ new) \<and> indent g' = indent g"
  by (cases stmt)
    (auto simp: generate_statement_def generate_call_def generate_return_def
      split: list.splits if_splits Expression.splits)

lemma generate_body_error:
  "generate_body body g = Inl e \<longleftrightarrow>
     Call ''print'' [] \<in> set body \<and> e = IndexError ''list index out of range''"
proof (induction body arbitrary: g)
  case Nil
  show ?case by simp
next
  case (Cons stmt body)
  show ?case
  proof (cases "generate_statement stmt g")
    case (Inl e')
    then show ?thesis using generate_statement_error [of stmt g e'] by auto
  next
    case (Inr g')
    have "stmt \<noteq> Call ''print'' []"
      using Inr generate_statement_error [of stmt g "IndexError ''list index out of range''"]
      by auto
    then show ?thesis using Inr Cons.IH [of g'] by auto
  qed
qed

lemma generate_body_appends:
  "generate_body body g = Inr g' \<Longrightarrow>
     (\<exists>new. output_lines g' = output_lines g @ new) \<and> indent g' = indent g"
proof (induction body arbitrary: g)
  case Nil
  then show ?case by simp
next
  case (Cons stmt body)
  from Cons.prems obtain g1 where s: "generate_statement stmt g = Inr g1"
    and b: "generate_body body g1 = Inr g'"
    by (auto split: sum.splits)
  from generate_statement_appends [OF s] Cons.IH [OF b] show ?case by auto
qed

lemma generate_function_error:
  "generate_function func g = Inl e \<longleftrightarrow>
     Call ''print'' [] \<in> set (f_body func) \<and> e = IndexError ''list index out of range''"
proof -
  let ?g = "emit (dict_get type_map (f_returns func) ''int'' @ '' '' @ f_name func @ ''('' @
      join '', '' (map (\<lambda>(name, typ). dict_get type_map typ ''int'' @ '' '' @ name)
        (f_params func)) @ '') {'') g"
  have "generate_function func g = Inl e \<longleftrightarrow>
      generate_body (f_body func) (?g\<lparr>indent := indent ?g + 1\<rparr>) = Inl e"
    by (simp add: generate_function_def Let_def split: sum.splits)
  then show ?thesis by (simp add: generate_body_error)
qed

lemma generate_functions_error:
  "generate_functions funcs g = Inl e \<longleftrightarrow>
     (\<exists>func \<in> set funcs. Call ''print'' [] \<in> set (f_body func)) \<and>
     e = IndexError ''list index out of range''"
proof (induction funcs arbitrary: g)
  case Nil
  show ?case by simp
next
  case (Cons func funcs)
  show ?case
  proof (cases "generate_function func g")
    case (Inl e')
    then show ?thesis using generate_function_error [of func g e'] by auto
  next
    case (Inr g')
    have "Call ''print'' [] \<notin> set (f_body func)"
      using Inr generate_function_error [of func g "IndexError ''list index out of range''"]
      by auto
    then show ?thesis using Inr Cons.IH [of g'] by auto
  qed
qed

lemma generate_error:
  "generate module g = Inl e \<longleftrightarrow>
     (\<exists>func \<in> set (m_functions module). Call ''print'' [] \<in> set (f_body func)) \<and>
     e = IndexError ''list index out of range''"
  by (simp add: generate_def Let_def generate_functions_error)

text \<open>The lookup of the generator computes the table of the specification.\<close>

lemma dict_get_type_map: "dict_get type_map t ''int'' = spec_c_type t"
  by (simp add: dict_get_def type_map_def spec_c_type_def)

section \<open>The claims of the specification\<close>

text \<open>
  Claim C1, as the specification states it: parsing \<^verbatim>\<open>module m; func f(a: int,) { }\<close>
  raises \<^verbatim>\<open>SyntaxError\<close>. It does not: a round of the parameter loop consumes a comma that
  follows the parameter, and the loop test then sees \<^verbatim>\<open>)\<close> and leaves the loop.
\<close>

theorem trailing_comma_counterexample:
  "\<not> (\<exists>msg. parse (tokenize ''module m; func f(a: int,) { }'') = Some (Inl (SyntaxError msg)))"
proof -
  have "parse (tokenize ''module m; func f(a: int,) { }'') =
     Some (Inr \<lparr>m_name = ''m'', m_imports = [], m_functions =
       [\<lparr>f_name = ''f'', f_params = [(''a'', ''int'')], f_returns = ''void'', f_body = []\<rparr>]\<rparr>)"
    by code_simp
  then show ?thesis by simp
qed

text \<open>
  Claim C1, amended: parsing \<^verbatim>\<open>module m; func f(a: int,) { }\<close> raises nothing and returns
  the module \<^verbatim>\<open>m\<close> with the one function \<^verbatim>\<open>f\<close>, whose parameters are the pair
  \<^verbatim>\<open>(a, int)\<close>, whose return type is \<^verbatim>\<open>void\<close> and whose body is empty.
\<close>

theorem trailing_comma_accepted:
  "parse (tokenize ''module m; func f(a: int,) { }'') =
     Some (Inr \<lparr>m_name = ''m'', m_imports = [], m_functions =
       [\<lparr>f_name = ''f'', f_params = [(''a'', ''int'')], f_returns = ''void'', f_body = []\<rparr>]\<rparr>)"
  by code_simp

text \<open>
  Claim C2. For every source text, no token of the list the driver collects has the text
  \<^verbatim>\<open>-\<close>, \<^verbatim>\<open>>\<close> or \<^verbatim>\<open>->\<close>. Hence, whenever the parser returns a module for that list,
  every function of the module has the return type \<^verbatim>\<open>void\<close>: the branch of
  \<^verbatim>\<open>parse_function\<close> that reads a return type after \<^verbatim>\<open>->\<close> is not taken. The same holds
  for any token list that holds no token with the text \<^verbatim>\<open>->\<close>.
\<close>

theorem arrow_never_lexed:
  "(\<forall>t \<in> set (tokenize src). tvalue t \<noteq> ''-'' \<and> tvalue t \<noteq> ''>'' \<and> tvalue t \<noteq> ''->'') \<and>
   (\<forall>m. parse (tokenize src) = Some (Inr m) \<longrightarrow>
      (\<forall>f \<in> set (m_functions m). f_returns f = ''void'')) \<and>
   (\<forall>m. (\<forall>t \<in> set toks. tvalue t \<noteq> ''->'') \<and> parse toks = Some (Inr m) \<longrightarrow>
      (\<forall>f \<in> set (m_functions m). f_returns f = ''void''))"
proof -
  have a: "\<forall>t \<in> set (tokenize src). tvalue t \<noteq> ''-'' \<and> tvalue t \<noteq> ''>'' \<and> tvalue t \<noteq> ''->''"
    using tokenize_tokens lexer_token_no_arrow by blast
  then have "\<forall>t \<in> set (tokenize src). tvalue t \<noteq> ''->''" by blast
  from parse_void [OF this] parse_void [of toks] a show ?thesis by blast
qed

theorem arrow_never_lexed_witness:
  "parse (tokenize ''module m; func f() -> { }'') =
     Some (Inr \<lparr>m_name = ''m'', m_imports = [], m_functions =
       [\<lparr>f_name = ''f'', f_params = [], f_returns = ''void'', f_body = []\<rparr>]\<rparr>) \<and>
   \<lparr>ttype = ''FUNC'', tvalue = ''func''\<rparr> \<in> set (tokenize ''module m; func f() -> { }'') \<and>
   tvalue \<lparr>ttype = ''FUNC'', tvalue = ''func''\<rparr> \<noteq> ''->'' \<and>
   f_returns \<lparr>f_name = ''f'', f_params = [], f_returns = ''void'', f_body = []\<rparr> = ''void''"
proof -
  have p: "parse (tokenize ''module m; func f() -> { }'') =
     Some (Inr \<lparr>m_name = ''m'', m_imports = [], m_functions =
       [\<lparr>f_name = ''f'', f_params = [], f_returns = ''void'', f_body = []\<rparr>]\<rparr>)"
    by code_simp
  have t: "\<lparr>ttype = ''FUNC'', tvalue = ''func''\<rparr> \<in> set (tokenize ''module m; func f() -> { }'')"
    by code_simp
  from arrow_never_lexed [of "''module m; func f() -> { }''" "[]"] p t show ?thesis by simp
qed

text \<open>
  Claim C3. For a \<^verbatim>\<open>Call\<close> statement whose function name is \<^verbatim>\<open>print\<close> and whose argument
  list is not empty, the generator returns normally and adds exactly one line to the
  output: the indentation, then \<^verbatim>\<open>printf(\<close>, the text of the first argument unchanged,
  then \<^verbatim>\<open>);\<close>. No later argument appears in it.
\<close>

theorem print_call_lowering:
  "args \<noteq> [] \<Longrightarrow>
     generate_statement (Call ''print'' args) g =
       Inr (g\<lparr>output_lines := output_lines g @
              [concat (replicate (nat (indent g)) ''    '') @
               ''printf('' @ sl_value (hd args) @ '');'']\<rparr>)"
  by (cases args) (simp_all add: generate_statement_def generate_call_def emit_def)

theorem print_call_lowering_witness:
  "[StringLiteral (dquote # ''hi'' @ [dquote]), StringLiteral (dquote # ''x'' @ [dquote])] \<noteq> [] \<and>
   generate_statement
     (Call ''print''
        [StringLiteral (dquote # ''hi'' @ [dquote]), StringLiteral (dquote # ''x'' @ [dquote])])
     \<lparr>output_lines = [], indent = 1\<rparr> =
   Inr \<lparr>output_lines = [''    printf('' @ dquote # ''hi'' @ [dquote] @ '');''], indent = 1\<rparr>"
  using print_call_lowering
    [of "[StringLiteral (dquote # ''hi'' @ [dquote]), StringLiteral (dquote # ''x'' @ [dquote])]"
        "\<lparr>output_lines = [], indent = 1\<rparr>"]
  by simp

text \<open>
  Claim C4. For a \<^verbatim>\<open>Call\<close> statement \<^verbatim>\<open>print\<close> with no argument the generator adds no
  line: reading the first argument raises \<^verbatim>\<open>IndexError\<close>. Generation of every module
  that holds such a call in a function body ends with that exception, and the source
  text \<^verbatim>\<open>module m; func f() { print(); }\<close> parses to such a module, so the driver ends with
  the exception on it.
\<close>

theorem print_without_arguments:
  "generate_statement (Call ''print'' []) g = Inl (IndexError ''list index out of range'') \<and>
   ((\<exists>func \<in> set (m_functions module). Call ''print'' [] \<in> set (f_body func)) \<longrightarrow>
      generate module g = Inl (IndexError ''list index out of range'')) \<and>
   parse (tokenize ''module m; func f() { print(); }'') =
     Some (Inr \<lparr>m_name = ''m'', m_imports = [], m_functions =
       [\<lparr>f_name = ''f'', f_params = [], f_returns = ''void'',
         f_body = [Call ''print'' []]\<rparr>]\<rparr>) \<and>
   compile_to_c ''module m; func f() { print(); }'' =
     Some (Inl (IndexError ''list index out of range''))"
proof -
  have parsed: "parse (tokenize ''module m; func f() { print(); }'') =
     Some (Inr \<lparr>m_name = ''m'', m_imports = [], m_functions =
       [\<lparr>f_name = ''f'', f_params = [], f_returns = ''void'',
         f_body = [Call ''print'' []]\<rparr>]\<rparr>)"
    by code_simp
  have stmt: "generate_statement (Call ''print'' []) g =
      Inl (IndexError ''list index out of range'')"
    by (simp add: generate_statement_error)
  have gen: "(\<exists>func \<in> set (m_functions module). Call ''print'' [] \<in> set (f_body func)) \<longrightarrow>
      generate module g = Inl (IndexError ''list index out of range'')" for module g
    by (simp add: generate_error)
  have "compile_to_c ''module m; func f() { print(); }'' =
     Some (Inl (IndexError ''list index out of range''))"
  proof -
    have "generate \<lparr>m_name = ''m'', m_imports = [], m_functions =
       [\<lparr>f_name = ''f'', f_params = [], f_returns = ''void'',
         f_body = [Call ''print'' []]\<rparr>]\<rparr> CodeGenerator_init =
       Inl (IndexError ''list index out of range'')"
      by (simp add: generate_error)
    then show ?thesis by (simp add: compile_to_c_def parsed)
  qed
  with parsed stmt gen show ?thesis by blast
qed

theorem print_without_arguments_witness:
  "Call ''print'' [] \<in> set (f_body \<lparr>f_name = ''f'', f_params = [], f_returns = ''void'',
         f_body = [Call ''print'' []]\<rparr>) \<and>
   generate \<lparr>m_name = ''m'', m_imports = [], m_functions =
       [\<lparr>f_name = ''f'', f_params = [], f_returns = ''void'',
         f_body = [Call ''print'' []]\<rparr>]\<rparr> CodeGenerator_init =
     Inl (IndexError ''list index out of range'')"
  using print_without_arguments
    [of CodeGenerator_init "\<lparr>m_name = ''m'', m_imports = [], m_functions =
       [\<lparr>f_name = ''f'', f_params = [], f_returns = ''void'',
         f_body = [Call ''print'' []]\<rparr>]\<rparr>"]
  by simp

text \<open>
  Claim C5. The lexer stands at a double quote and no further double quote follows up to
  the end of the input. Then \<^verbatim>\<open>get_next_token\<close> raises nothing: it returns a
  \<^verbatim>\<open>STRING\<close> token whose text is the rest of the input between two quote characters,
  the next call returns the \<^verbatim>\<open>EOF\<close> token, and the tokenising loop of the driver adds
  exactly that one token.
\<close>

theorem unterminated_string_token:
  assumes "dquote \<notin> set body"
  shows "\<exists>l'. get_next_token \<lparr>source = pre @ dquote # body, pos = length pre,
                                current_char = Some dquote\<rparr> =
                (\<lparr>ttype = ''STRING'', tvalue = dquote # body @ [dquote]\<rparr>, l') \<and>
              get_next_token l' = (\<lparr>ttype = ''EOF'', tvalue = ''''\<rparr>, l') \<and>
              tokenize_loop toks \<lparr>source = pre @ dquote # body, pos = length pre,
                                 current_char = Some dquote\<rparr> =
                toks @ [\<lparr>ttype = ''STRING'', tvalue = dquote # body @ [dquote]\<rparr>]"
proof -
  let ?l = "\<lparr>source = pre @ dquote # body, pos = length pre, current_char = Some dquote\<rparr>"
  let ?tok = "\<lparr>ttype = ''STRING'', tvalue = dquote # body @ [dquote]\<rparr>"
  let ?l1 = "Lexer_advance ?l"
  have cur: "current_char ?l = Some dquote" by simp
  have "dquote \<notin> set (drop (pos ?l1) (source ?l1))" using assms by simp
  from get_string_loop_no_quote [OF consistent_advance this, of "[]"]
  have loop: "fst (get_string_loop [] ?l1) = body"
    and none: "current_char (snd (get_string_loop [] ?l1)) = None"
    and cons: "consistent (snd (get_string_loop [] ?l1))"
    by simp_all
  let ?l2 = "snd (get_string_loop [] ?l1)"
  let ?l' = "Lexer_advance ?l2"
  from consistent_None [OF cons none] have end': "current_char ?l' = None"
    by (simp add: advance_at_end)
  have gs: "get_string ?l = (dquote # body @ [dquote], ?l')"
    using loop by (simp add: get_string_def split_beta)
  have tok: "get_next_token ?l = (?tok, ?l')"
    using gs dquote_class by (simp add: get_next_token_string [OF cur])
  have eof: "get_next_token ?l' = (\<lparr>ttype = ''EOF'', tvalue = ''''\<rparr>, ?l')"
    by (rule get_next_token_eof [OF end'])
  have "tokenize_loop toks ?l = tokenize_loop (toks @ [?tok]) ?l'"
    using tok by (simp add: tokenize_loop.simps [of toks ?l])
  also have "\<dots> = toks @ [?tok]"
    using eof by (simp add: tokenize_loop.simps [of "toks @ [?tok]" ?l'])
  finally show ?thesis using tok eof by blast
qed

theorem unterminated_string_token_witness:
  "dquote \<notin> set ''hi'' \<and>
   (\<exists>l'. get_next_token \<lparr>source = ''print('' @ dquote # ''hi'', pos = length ''print('',
                            current_char = Some dquote\<rparr> =
            (\<lparr>ttype = ''STRING'', tvalue = dquote # ''hi'' @ [dquote]\<rparr>, l') \<and>
          get_next_token l' = (\<lparr>ttype = ''EOF'', tvalue = ''''\<rparr>, l') \<and>
          tokenize_loop [] \<lparr>source = ''print('' @ dquote # ''hi'', pos = length ''print('',
                             current_char = Some dquote\<rparr> =
            [] @ [\<lparr>ttype = ''STRING'', tvalue = dquote # ''hi'' @ [dquote]\<rparr>])"
proof -
  have h: "dquote \<notin> set ''hi''" by simp
  from unterminated_string_token [OF h, of "''print(''" "[]"] h show ?thesis by blast
qed

text \<open>
  Claim C6. For every function whose body holds no \<^verbatim>\<open>print()\<close> without arguments (the
  only statement that raises), whatever its type names are, \<^verbatim>\<open>generate_function\<close>
  returns normally, and the first line it adds is the signature in which the return type
  and every parameter type are translated by the table of the specification: \<^verbatim>\<open>int\<close>,
  \<^verbatim>\<open>void\<close>, \<^verbatim>\<open>size_t\<close>, \<^verbatim>\<open>void*\<close> for the four known names and \<^verbatim>\<open>int\<close> for any other.
\<close>

theorem type_fallback:
  assumes "Call ''print'' [] \<notin> set (f_body func)"
  shows "\<exists>g' rest. generate_function func g = Inr g' \<and>
           output_lines g' = output_lines g @
             (concat (replicate (nat (indent g)) ''    '') @
              spec_c_type (f_returns func) @ '' '' @ f_name func @ ''('' @
              join '', '' (map (\<lambda>(name, typ). spec_c_type typ @ '' '' @ name) (f_params func)) @
              '') {'') # rest"
proof -
  let ?sig = "dict_get type_map (f_returns func) ''int'' @ '' '' @ f_name func @ ''('' @
      join '', '' (map (\<lambda>(name, typ). dict_get type_map typ ''int'' @ '' '' @ name) (f_params func)) @
      '') {''"
  let ?g1 = "emit ?sig g"
  let ?g2 = "?g1\<lparr>indent := indent ?g1 + 1\<rparr>"
  obtain g3 where body: "generate_body (f_body func) ?g2 = Inr g3"
    using assms generate_body_error [of "f_body func" ?g2]
    by (cases "generate_body (f_body func) ?g2") auto
  from generate_body_appends [OF body] obtain new where
    new: "output_lines g3 = output_lines ?g2 @ new" by blast
  let ?g' = "emit '''' (emit ''}'' (g3\<lparr>indent := indent g3 - 1\<rparr>))"
  have res: "generate_function func g = Inr ?g'"
    using body by (simp add: generate_function_def Let_def)
  have "output_lines ?g' = output_lines g @
      (concat (replicate (nat (indent g)) ''    '') @ ?sig) #
      (new @ [concat (replicate (nat (indent g3 - 1)) ''    '') @ ''}'',
              concat (replicate (nat (indent g3 - 1)) ''    '') @ ''''])"
    using new by simp
  then show ?thesis using res by (simp add: dict_get_type_map del: emit_fields)
qed

theorem type_fallback_witness:
  "Call ''print'' [] \<notin> set (f_body \<lparr>f_name = ''f'', f_params = [(''x'', ''mystery''), (''n'', ''word'')],
       f_returns = ''unknown'', f_body = []\<rparr>) \<and>
   (\<exists>g' rest.
      generate_function \<lparr>f_name = ''f'', f_params = [(''x'', ''mystery''), (''n'', ''word'')],
         f_returns = ''unknown'', f_body = []\<rparr> CodeGenerator_init = Inr g' \<and>
      output_lines g' = ''int f(int x, size_t n) {'' # rest)"
  using type_fallback [of "\<lparr>f_name = ''f'', f_params = [(''x'', ''mystery''), (''n'', ''word'')],
       f_returns = ''unknown'', f_body = []\<rparr>" CodeGenerator_init]
  by (simp add: spec_c_type_def CodeGenerator_init_def)

text \<open>
  Claim C7. When the current token is not of type \<^verbatim>\<open>STRING\<close>, \<^verbatim>\<open>parse_expression\<close> raises
  \<^verbatim>\<open>NotImplementedError\<close>, which is no \<^verbatim>\<open>SyntaxError\<close>, and returns no expression. So does
  a statement that starts with \<^verbatim>\<open>return\<close> and goes on with a token that is not a string;
  on the source text \<^verbatim>\<open>module m; func f() { return 1 + 2; }\<close> the parser, and with it the
  driver, ends with that exception.
\<close>

theorem unsupported_expression:
  "(ttype (current_token p) \<noteq> ''STRING'' \<longrightarrow>
      parse_expression p =
        Some (Inl (NotImplementedError ''Complex expressions not implemented yet'')) \<and>
      (\<forall>msg. parse_expression p \<noteq> Some (Inl (SyntaxError msg))) \<and>
      (\<forall>x. parse_expression p \<noteq> Some (Inr x))) \<and>
   (tvalue (current_token p) = ''return'' \<and>
    ttype (current_token (Parser_advance p)) \<noteq> ''STRING'' \<longrightarrow>
      parse_statement p =
        Some (Inl (NotImplementedError ''Complex expressions not implemented yet''))) \<and>
   parse (tokenize ''module m; func f() { return 1 + 2; }'') =
     Some (Inl (NotImplementedError ''Complex expressions not implemented yet'')) \<and>
   compile_to_c ''module m; func f() { return 1 + 2; }'' =
     Some (Inl (NotImplementedError ''Complex expressions not implemented yet''))"
proof -
  have p: "parse (tokenize ''module m; func f() { return 1 + 2; }'') =
     Some (Inl (NotImplementedError ''Complex expressions not implemented yet''))"
    by code_simp
  then have "compile_to_c ''module m; func f() { return 1 + 2; }'' =
     Some (Inl (NotImplementedError ''Complex expressions not implemented yet''))"
    by (simp add: compile_to_c_def)
  moreover have "tvalue (current_token p) = ''return'' \<and>
      ttype (current_token (Parser_advance p)) \<noteq> ''STRING'' \<longrightarrow>
      parse_statement p =
        Some (Inl (NotImplementedError ''Complex expressions not implemented yet''))"
    by (simp add: parse_statement_def parse_return_def expect_def and_then_def
        parse_expression_def)
  ultimately show ?thesis using p by (simp add: parse_expression_def)
qed

theorem unsupported_expression_witness:
  "ttype (current_token (Parser_init [\<lparr>ttype = '';'', tvalue = '';''\<rparr>])) \<noteq> ''STRING'' \<and>
   parse_expression (Parser_init [\<lparr>ttype = '';'', tvalue = '';''\<rparr>]) =
     Some (Inl (NotImplementedError ''Complex expressions not implemented yet''))"
  using unsupported_expression [of "Parser_init [\<lparr>ttype = '';'', tvalue = '';''\<rparr>]"]
  by (simp add: Parser_init_def)

text \<open>
  Claim C8. For every token list, \<^verbatim>\<open>Parser(tokens).parse()\<close> returns a module or raises:
  the result is never \<open>None\<close>. The reasons the claim gives hold as well: the \<^verbatim>\<open>EOF\<close> token
  fails every expectation other than \<^verbatim>\<open>EOF\<close> and the empty string, \<^verbatim>\<open>advance\<close> at or past
  the last token makes the \<^verbatim>\<open>EOF\<close> token current, and a round of each of the five loops
  (imports, functions, parameters, arguments, statements) that returns has moved the
  position forward.
\<close>

theorem parse_terminates:
  "(\<exists>r. parse toks = Some r) \<and>
   (current_token p = EOF_token \<and> e \<noteq> ''EOF'' \<and> e \<noteq> '''' \<longrightarrow>
      (\<exists>msg. expect e p = Inl (SyntaxError msg))) \<and>
   (length (tokens p) \<le> tpos p + 1 \<longrightarrow> current_token (Parser_advance p) = EOF_token) \<and>
   (pwf p \<longrightarrow>
      (\<forall>x p'. parse_import p = Some (Inr (x, p')) \<longrightarrow> tpos p < tpos p') \<and>
      (\<forall>x p'. parse_function p = Some (Inr (x, p')) \<longrightarrow> tpos p < tpos p') \<and>
      (\<forall>x p'. function_params_body p = Some (Inr (x, p')) \<longrightarrow> tpos p < tpos p') \<and>
      (\<forall>x p'. call_args_body p = Some (Inr (x, p')) \<longrightarrow> tpos p < tpos p') \<and>
      (\<forall>x p'. parse_statement p = Some (Inr (x, p')) \<longrightarrow> tpos p < tpos p'))"
proof -
  have eof: "current_token p = EOF_token \<and> e \<noteq> ''EOF'' \<and> e \<noteq> '''' \<longrightarrow>
      (\<exists>msg. expect e p = Inl (SyntaxError msg))"
    by (auto simp: expect_def EOF_token_def)
  have adv: "length (tokens p) \<le> tpos p + 1 \<longrightarrow> current_token (Parser_advance p) = EOF_token"
    by (simp add: Parser_advance_def Let_def)
  have bodies: "(\<forall>x p'. parse_import p = Some (Inr (x, p')) \<longrightarrow> tpos p < tpos p') \<and>
      (\<forall>x p'. parse_function p = Some (Inr (x, p')) \<longrightarrow> tpos p < tpos p') \<and>
      (\<forall>x p'. function_params_body p = Some (Inr (x, p')) \<longrightarrow> tpos p < tpos p') \<and>
      (\<forall>x p'. call_args_body p = Some (Inr (x, p')) \<longrightarrow> tpos p < tpos p') \<and>
      (\<forall>x p'. parse_statement p = Some (Inr (x, p')) \<longrightarrow> tpos p < tpos p')" if "pwf p"
    using parse_import_returns [OF that] parse_function_returns [OF that]
      function_params_body_returns [OF that] call_args_body_returns [OF that]
      parse_statement_returns [OF that]
    by (simp add: returns_with_def advanced_def)
  from parse_returns [of toks] eof adv bodies show ?thesis by blast
qed

theorem parse_terminates_witness:
  "(\<exists>r. parse [\<lparr>ttype = ''MODULE'', tvalue = ''module''\<rparr>] = Some r) \<and>
   current_token (Parser_init []) = EOF_token \<and>
   (\<exists>msg. expect ''IDENT'' (Parser_init []) = Inl (SyntaxError msg)) \<and>
   length (tokens (Parser_init [])) \<le> tpos (Parser_init []) + 1 \<and>
   current_token (Parser_advance (Parser_init [])) = EOF_token \<and>
   pwf (Parser_init [\<lparr>ttype = ''RETURN'', tvalue = ''return''\<rparr>,
                     \<lparr>ttype = ''STRING'', tvalue = ''x''\<rparr>, \<lparr>ttype = '';'', tvalue = '';''\<rparr>]) \<and>
   parse_statement (Parser_init [\<lparr>ttype = ''RETURN'', tvalue = ''return''\<rparr>,
                     \<lparr>ttype = ''STRING'', tvalue = ''x''\<rparr>, \<lparr>ttype = '';'', tvalue = '';''\<rparr>]) =
     Some (Inr (Return (StringLiteral ''x''),
       \<lparr>tokens = [\<lparr>ttype = ''RETURN'', tvalue = ''return''\<rparr>,
                     \<lparr>ttype = ''STRING'', tvalue = ''x''\<rparr>, \<lparr>ttype = '';'', tvalue = '';''\<rparr>],
        tpos = 3, current_token = EOF_token\<rparr>)) \<and>
   tpos (Parser_init [\<lparr>ttype = ''RETURN'', tvalue = ''return''\<rparr>,
                     \<lparr>ttype = ''STRING'', tvalue = ''x''\<rparr>, \<lparr>ttype = '';'', tvalue = '';''\<rparr>]) < 3"
proof -
  let ?ts = "[\<lparr>ttype = ''RETURN'', tvalue = ''return''\<rparr>,
              \<lparr>ttype = ''STRING'', tvalue = ''x''\<rparr>, \<lparr>ttype = '';'', tvalue = '';''\<rparr>]"
  have s: "parse_statement (Parser_init ?ts) =
     Some (Inr (Return (StringLiteral ''x''),
       \<lparr>tokens = ?ts, tpos = 3, current_token = EOF_token\<rparr>))"
    by code_simp
  have i: "current_token (Parser_init []) = EOF_token" "tpos (Parser_init ?ts) < 3"
    "length (tokens (Parser_init [])) \<le> tpos (Parser_init []) + 1"
    by (simp_all add: Parser_init_def)
  from parse_terminates [of "[\<lparr>ttype = ''MODULE'', tvalue = ''module''\<rparr>]" "Parser_init []"
      "''IDENT''"]
    parse_terminates [of "[]" "Parser_init ?ts" "''IDENT''"]
    s i pwf_init [of ?ts]
  show ?thesis by simp
qed

text \<open>
  Claim C9. In the token list of every source text, a token whose text is one of the
  four reserved words has the upper-case keyword as its type, so it is never of type
  \<^verbatim>\<open>IDENT\<close>. And wherever the lexer stands at the first character of a reserved word
  that is followed by the end of the input or by a character that cannot continue an
  identifier, the token it returns is that keyword token.
\<close>

theorem keyword_precedence:
  "(\<forall>t \<in> set (tokenize src).
      (tvalue t = ''module'' \<longrightarrow> ttype t = ''MODULE'') \<and>
      (tvalue t = ''import'' \<longrightarrow> ttype t = ''IMPORT'') \<and>
      (tvalue t = ''func'' \<longrightarrow> ttype t = ''FUNC'') \<and>
      (tvalue t = ''return'' \<longrightarrow> ttype t = ''RETURN'')) \<and>
   (k \<in> KEYWORDS \<and> (rest = [] \<or> \<not> (isalnum (hd rest) \<or> hd rest = CHR ''_'')) \<longrightarrow>
      fst (get_next_token \<lparr>source = pre @ k @ rest, pos = length pre,
                           current_char = Some (hd k)\<rparr>) =
        \<lparr>ttype = upper k, tvalue = k\<rparr> \<and>
      upper k \<noteq> ''IDENT'')"
proof (rule conjI)
  show "\<forall>t \<in> set (tokenize src).
      (tvalue t = ''module'' \<longrightarrow> ttype t = ''MODULE'') \<and>
      (tvalue t = ''import'' \<longrightarrow> ttype t = ''IMPORT'') \<and>
      (tvalue t = ''func'' \<longrightarrow> ttype t = ''FUNC'') \<and>
      (tvalue t = ''return'' \<longrightarrow> ttype t = ''RETURN'')"
    using tokenize_tokens lexer_token_keyword by blast
next
  let ?l = "\<lparr>source = pre @ k @ rest, pos = length pre, current_char = Some (hd k)\<rparr>"
  show "k \<in> KEYWORDS \<and> (rest = [] \<or> \<not> (isalnum (hd rest) \<or> hd rest = CHR ''_'')) \<longrightarrow>
      fst (get_next_token ?l) = \<lparr>ttype = upper k, tvalue = k\<rparr> \<and> upper k \<noteq> ''IDENT''"
  proof (rule impI)
    assume a: "k \<in> KEYWORDS \<and> (rest = [] \<or> \<not> (isalnum (hd rest) \<or> hd rest = CHR ''_''))"
    then have k: "k \<in> KEYWORDS" by simp
    note kc = keyword_chars [OF k]
    have cur: "current_char ?l = Some (hd k)" by simp
    have cons: "consistent ?l"
      using kc(1) by (simp add: consistent_def nth_append hd_conv_nth)
    have run: "takeWhile (\<lambda>c. isalnum c \<or> c = CHR ''_'') (k @ rest) = k"
    proof (cases rest)
      case Nil
      with kc(3) show ?thesis by simp
    next
      case (Cons x xs)
      with a kc(3) show ?thesis by (simp add: takeWhile_append2)
    qed
    have gi: "fst (get_identifier ?l) = k"
      using get_identifier_loop_run [OF cons, of "[]"] run by (simp add: get_identifier_def)
    have "get_next_token ?l =
        (let (ident, l') = get_identifier ?l
         in if ident \<in> KEYWORDS
            then (\<lparr>ttype = upper ident, tvalue = ident\<rparr>, l')
            else (\<lparr>ttype = ''IDENT'', tvalue = ident\<rparr>, l'))"
      by (rule get_next_token_ident [OF cur])
        (use kc(2) isalpha_not_space [OF kc(2)] isalpha_not_slash [OF kc(2)] in auto)
    with gi k have "fst (get_next_token ?l) = \<lparr>ttype = upper k, tvalue = k\<rparr>"
      by (simp add: split_beta)
    moreover from k have "upper k \<noteq> ''IDENT''"
      by (auto simp: KEYWORDS_def upper_keywords)
    ultimately show "fst (get_next_token ?l) = \<lparr>ttype = upper k, tvalue = k\<rparr> \<and>
        upper k \<noteq> ''IDENT''"
      by simp
  qed
qed

theorem keyword_precedence_witness:
  "\<lparr>ttype = ''FUNC'', tvalue = ''func''\<rparr> \<in> set (tokenize ''print(func)'') \<and>
   ttype \<lparr>ttype = ''FUNC'', tvalue = ''func''\<rparr> = ''FUNC'' \<and>
   ''func'' \<in> KEYWORDS \<and>
   \<not> (isalnum (hd '')'') \<or> hd '')'' = CHR ''_'') \<and>
   fst (get_next_token \<lparr>source = ''print('' @ ''func'' @ '')'', pos = length ''print('',
                        current_char = Some (hd ''func'')\<rparr>) =
     \<lparr>ttype = upper ''func'', tvalue = ''func''\<rparr> \<and>
   upper ''func'' \<noteq> ''IDENT''"
proof -
  have t: "\<lparr>ttype = ''FUNC'', tvalue = ''func''\<rparr> \<in> set (tokenize ''print(func)'')"
    by code_simp
  have k: "''func'' \<in> KEYWORDS" by (simp add: KEYWORDS_def)
  have r: "\<not> (isalnum (hd '')'') \<or> hd '')'' = CHR ''_'')"
    by (simp add: isalnum_def isalpha_def)
  from keyword_precedence [of "''print(func)''" "''func''" "'')''" "''print(''"] t k r
  show ?thesis by auto
qed

end
